theory Spec2Isabelle
  imports Main "HOL-Library.Char_ord" "HOL-Library.List_Lexorder" "HOL-Library.Option_ord"
begin

section \<open>The image-moderation service: data, store and handlers\<close>

text \<open>
  The three request handlers of \<^verbatim>\<open>backend/app/views.py\<close> over the two collections
  of the document store. A string is the UTF-8 encoding of a text, identifiers are the
  numbers their 24 hex digits denote, and timestamps are integers in the store's
  resolution (milliseconds).
\<close>

subsection \<open>Stored documents\<close>

type_synonym oid = nat

record image =
  image_oid :: oid
  group_id :: oid
  status :: string
  created_at :: int
  last_updated_at :: int
  url :: string

record group =
  group_oid :: oid
  name :: string

text \<open>
  The configuration module is imported by the handlers and is taken as a parameter:
  the valid statuses, the statistics window in days, and the default page size.
\<close>

record config =
  VALID_STATUSES :: "string list"
  STATISTIC_NUMBER_OF_DAYS :: int
  DEFAULT_PAGINATION_NUMBER_OF_GROUPS_TO_RETURN :: int

subsection \<open>Library functions the handlers call\<close>

datatype exn =
    ValueError string
  | InvalidId string
  | KeyError string
  | OverflowError
  | OperationFailure
  | PyMongoError string

text \<open>\<^verbatim>\<open>markupsafe.escape\<close>: the five HTML-significant characters are replaced.\<close>

definition escape_char :: "char \<Rightarrow> string" where
  "escape_char c =
     (if c = CHR ''&'' then ''&amp;''
      else if c = CHR ''<'' then ''&lt;''
      else if c = CHR ''>'' then ''&gt;''
      else if c = CHR 0x27 then ''&#39;''
      else if c = CHR 0x22 then ''&#34;''
      else [c])"

definition escape :: "string \<Rightarrow> string" where
  "escape s = concat (map escape_char s)"

text \<open>
  Python's \<^verbatim>\<open>int(s)\<close> on a string, base 10, as CPython 3.11 computes it. A string of
  the model is the UTF-8 encoding of the text, so it is decoded to code points first
  (bytes that are no UTF-8 decode to a replacement character, on which \<^verbatim>\<open>int\<close> fails).
  Then every code point from 127 on is replaced: a white-space character by a space, a
  decimal digit of any script by the ASCII digit of its value (the table is that of
  Unicode 14.0); any other one makes the conversion fail. What results is read as
  white space, an optional sign, and digits that single underscores may separate,
  followed by white space; white space is the characters 9 to 13 and 32. More than 4300
  digits are refused. Every failure is a \<^verbatim>\<open>ValueError\<close>.
\<close>

definition continuation :: "int \<Rightarrow> bool" where
  "continuation b = (0x80 \<le> b \<and> b \<le> 0xBF)"

fun utf8_decode :: "int list \<Rightarrow> int list option" where
  "utf8_decode [] = Some []"
| "utf8_decode (b # bs) =
     (if b < 0x80 then map_option ((#) b) (utf8_decode bs)
      else if 0xC2 \<le> b \<and> b \<le> 0xDF then
        (case bs of
           c1 # r \<Rightarrow>
             if continuation c1
             then map_option ((#) ((b - 0xC0) * 64 + (c1 - 0x80))) (utf8_decode r)
             else None
         | _ \<Rightarrow> None)
      else if 0xE0 \<le> b \<and> b \<le> 0xEF then
        (case bs of
           c1 # c2 # r \<Rightarrow>
             (let cp = (b - 0xE0) * 4096 + (c1 - 0x80) * 64 + (c2 - 0x80) in
              if continuation c1 \<and> continuation c2 \<and> 0x800 \<le> cp \<and>
                 \<not> (0xD800 \<le> cp \<and> cp \<le> 0xDFFF)
              then map_option ((#) cp) (utf8_decode r)
              else None)
         | _ \<Rightarrow> None)
      else if 0xF0 \<le> b \<and> b \<le> 0xF4 then
        (case bs of
           c1 # c2 # c3 # r \<Rightarrow>
             (let cp = (b - 0xF0) * 262144 + (c1 - 0x80) * 4096 + (c2 - 0x80) * 64 + (c3 - 0x80) in
              if continuation c1 \<and> continuation c2 \<and> continuation c3 \<and>
                 0x10000 \<le> cp \<and> cp \<le> 0x10FFFF
              then map_option ((#) cp) (utf8_decode r)
              else None)
         | _ \<Rightarrow> None)
      else None)"

definition unicode_space :: "int \<Rightarrow> bool" where
  "unicode_space c =
     (c \<in> set [0x85, 0xA0, 0x1680, 0x2028, 0x2029, 0x202F, 0x205F, 0x3000]
      \<or> (0x2000 \<le> c \<and> c \<le> 0x200A))"

definition decimal_zeros :: "int list" where
  "decimal_zeros =
     [0x660, 0x6F0, 0x7C0, 0x966, 0x9E6, 0xA66, 0xAE6, 0xB66,
      0xBE6, 0xC66, 0xCE6, 0xD66, 0xDE6, 0xE50, 0xED0, 0xF20,
      0x1040, 0x1090, 0x17E0, 0x1810, 0x1946, 0x19D0, 0x1A80, 0x1A90,
      0x1B50, 0x1BB0, 0x1C40, 0x1C50, 0xA620, 0xA8D0, 0xA900, 0xA9D0,
      0xA9F0, 0xAA50, 0xABF0, 0xFF10, 0x104A0, 0x10D30, 0x11066, 0x110F0,
      0x11136, 0x111D0, 0x112F0, 0x11450, 0x114D0, 0x11650, 0x116C0, 0x11730,
      0x118E0, 0x11950, 0x11C50, 0x11D50, 0x11DA0, 0x16A60, 0x16AC0, 0x16B50,
      0x1D7CE, 0x1D7D8, 0x1D7E2, 0x1D7EC, 0x1D7F6, 0x1E140, 0x1E2F0, 0x1E950,
      0x1FBF0]"

definition decimal_of :: "int \<Rightarrow> int option" where
  "decimal_of c =
     (case find (\<lambda>z. z \<le> c \<and> c < z + 10) decimal_zeros of
        None \<Rightarrow> None
      | Some z \<Rightarrow> Some (c - z))"

definition ascii_of :: "int \<Rightarrow> int option" where
  "ascii_of c =
     (if c < 127 then Some c
      else if unicode_space c then Some 32
      else map_option (\<lambda>d. 48 + d) (decimal_of c))"

fun to_ascii :: "int list \<Rightarrow> int list option" where
  "to_ascii [] = Some []"
| "to_ascii (c # cs) =
     (case ascii_of c of
        None \<Rightarrow> None
      | Some a \<Rightarrow> map_option ((#) a) (to_ascii cs))"

definition is_space :: "int \<Rightarrow> bool" where
  "is_space c = (9 \<le> c \<and> c \<le> 13 \<or> c = 32)"

definition strip :: "int list \<Rightarrow> int list" where
  "strip s = rev (dropWhile is_space (rev (dropWhile is_space s)))"

definition digit_of :: "int \<Rightarrow> int option" where
  "digit_of c = (if 48 \<le> c \<and> c \<le> 57 then Some (c - 48) else None)"

fun int_digits :: "bool \<Rightarrow> int \<Rightarrow> int list \<Rightarrow> int option" where
  "int_digits after_digit acc [] = (if after_digit then Some acc else None)"
| "int_digits after_digit acc (c # cs) =
     (if c = 95 then
        (if after_digit \<and> cs \<noteq> [] then int_digits False acc cs else None)
      else (case digit_of c of
              None \<Rightarrow> None
            | Some d \<Rightarrow> int_digits True (10 * acc + d) cs))"

definition int_literal :: "int list \<Rightarrow> int option" where
  "int_literal a =
     (case strip a of
        [] \<Rightarrow> None
      | c # cs \<Rightarrow>
          (let body = (if c = 45 \<or> c = 43 then cs else c # cs) in
           if 4300 < length (filter (\<lambda>d. d \<noteq> 95) body) then None
           else map_option (\<lambda>n. if c = 45 then - n else n) (int_digits False 0 body)))"

definition py_int :: "string \<Rightarrow> exn + int" where
  "py_int s =
     (case Option.bind (Option.bind (utf8_decode (map of_char s)) to_ascii) int_literal of
        None \<Rightarrow> Inl (ValueError s)
      | Some n \<Rightarrow> Inr n)"

text \<open>
  \<^verbatim>\<open>bson.ObjectId(s)\<close> on a string: exactly 24 hexadecimal digits, of either case;
  anything else raises \<^verbatim>\<open>InvalidId\<close>.
\<close>

definition hex_of :: "char \<Rightarrow> nat option" where
  "hex_of c =
     (if CHR ''0'' \<le> c \<and> c \<le> CHR ''9'' then Some (of_char c - 48)
      else if CHR ''a'' \<le> c \<and> c \<le> CHR ''f'' then Some (of_char c - 87)
      else if CHR ''A'' \<le> c \<and> c \<le> CHR ''F'' then Some (of_char c - 55)
      else None)"

fun hex_value :: "nat \<Rightarrow> string \<Rightarrow> nat option" where
  "hex_value acc [] = Some acc"
| "hex_value acc (c # cs) =
     (case hex_of c of None \<Rightarrow> None | Some d \<Rightarrow> hex_value (16 * acc + d) cs)"

definition ObjectId :: "string \<Rightarrow> exn + oid" where
  "ObjectId s =
     (if length s = 24 then
        (case hex_value 0 s of None \<Rightarrow> Inl (InvalidId s) | Some n \<Rightarrow> Inr n)
      else Inl (InvalidId s))"

text \<open>\<^verbatim>\<open>list.insert(i, x)\<close> for a non-negative index.\<close>

definition list_insert :: "nat \<Rightarrow> 'a \<Rightarrow> 'a list \<Rightarrow> 'a list" where
  "list_insert i x xs = take i xs @ x # drop i xs"

text \<open>\<^verbatim>\<open>timedelta(days=d)\<close>, in milliseconds.\<close>

definition timedelta_days :: "int \<Rightarrow> int" where
  "timedelta_days d = d * 86400000"

subsection \<open>The aggregation stages on the groups collection\<close>

text \<open>
  A document travelling through the groups pipeline has the group's \<^verbatim>\<open>_id\<close> and
  \<^verbatim>\<open>name\<close>, and may have an \<^verbatim>\<open>images\<close> field (one embedded image, or an array) and a
  \<^verbatim>\<open>count\<close> field.
\<close>

datatype ifield = One image | Many "ifield list"

record gdoc = group +
  images :: "ifield option"
  count :: "int option"

datatype stage =
    Lookup_images
  | Unwind_images
  | Match_images_status string
  | Sort_images_last_updated_at_desc
  | Group_by_id
  | Sort_name_asc
  | Skip int
  | Limit int

definition group_doc :: "group \<Rightarrow> gdoc" where
  "group_doc g = \<lparr>group_oid = group_oid g, name = name g, images = None, count = None\<rparr>"

text \<open>\<^verbatim>\<open>$lookup\<close> from images, \<^verbatim>\<open>localField _id\<close>, \<^verbatim>\<open>foreignField group_id\<close>, as images.\<close>

definition lookup_images :: "image list \<Rightarrow> gdoc \<Rightarrow> gdoc" where
  "lookup_images imgs d =
     d\<lparr>images := Some (Many (map One (filter (\<lambda>i. group_id i = group_oid d) imgs)))\<rparr>"

text \<open>
  \<^verbatim>\<open>$unwind: '$images'\<close>: one document per array element; a document whose field is
  missing or an empty array yields none; a field that is not an array counts as one element.
\<close>

definition unwind_images :: "gdoc \<Rightarrow> gdoc list" where
  "unwind_images d =
     (case images d of
        None \<Rightarrow> []
      | Some (One x) \<Rightarrow> [d]
      | Some (Many xs) \<Rightarrow> map (\<lambda>x. d\<lparr>images := Some x\<rparr>) xs)"

text \<open>\<^verbatim>\<open>$match: {'images.status': s}\<close>.\<close>

definition has_status :: "string \<Rightarrow> ifield \<Rightarrow> bool" where
  "has_status s v = (case v of One x \<Rightarrow> status x = s | Many _ \<Rightarrow> False)"

definition images_status_is :: "string \<Rightarrow> gdoc \<Rightarrow> bool" where
  "images_status_is s d =
     (case images d of
        None \<Rightarrow> False
      | Some (One x) \<Rightarrow> status x = s
      | Some (Many xs) \<Rightarrow> list_ex (has_status s) xs)"

text \<open>
  \<^verbatim>\<open>$sort: {'images.last_updated_at': -1}\<close>: the key of a document is the time of its
  embedded image (the largest one of an array; a document without one sorts last).
  The store promises no order among equal keys; the model keeps their incoming order.
\<close>

definition times_of :: "ifield list \<Rightarrow> int list" where
  "times_of xs = concat (map (\<lambda>v. case v of One x \<Rightarrow> [last_updated_at x] | Many _ \<Rightarrow> []) xs)"

definition images_last_updated_at :: "gdoc \<Rightarrow> int option" where
  "images_last_updated_at d =
     (case images d of
        None \<Rightarrow> None
      | Some (One x) \<Rightarrow> Some (last_updated_at x)
      | Some (Many xs) \<Rightarrow>
          (case times_of xs of [] \<Rightarrow> None | t # ts \<Rightarrow> Some (fold max ts t)))"

definition sort_desc :: "('a \<Rightarrow> 'k::linorder) \<Rightarrow> 'a list \<Rightarrow> 'a list" where
  "sort_desc k xs = rev (sort_key k (rev xs))"

text \<open>
  \<^verbatim>\<open>$group\<close> by \<^verbatim>\<open>_id\<close> with the accumulators \<^verbatim>\<open>name: $first\<close>, \<^verbatim>\<open>images: $push\<close>,
  \<^verbatim>\<open>count: $sum 1\<close>. Each incoming document updates the accumulator of its key; a
  missing field pushes nothing.
\<close>

record group_acc =
  acc_id :: oid
  first_name :: string
  pushed :: "ifield list"
  summed :: int

definition push_images :: "gdoc \<Rightarrow> ifield list" where
  "push_images d = (case images d of None \<Rightarrow> [] | Some v \<Rightarrow> [v])"

fun accumulate :: "gdoc \<Rightarrow> group_acc list \<Rightarrow> group_acc list" where
  "accumulate d [] =
     [\<lparr>acc_id = group_oid d, first_name = name d, pushed = push_images d, summed = 1\<rparr>]"
| "accumulate d (a # as) =
     (if acc_id a = group_oid d
      then a\<lparr>pushed := pushed a @ push_images d, summed := summed a + 1\<rparr> # as
      else a # accumulate d as)"

definition acc_doc :: "group_acc \<Rightarrow> gdoc" where
  "acc_doc a =
     \<lparr>group_oid = acc_id a, name = first_name a,
      images = Some (Many (pushed a)), count = Some (summed a)\<rparr>"

definition group_by_id :: "gdoc list \<Rightarrow> gdoc list" where
  "group_by_id ds = map acc_doc (fold accumulate ds [])"

fun run_stage :: "image list \<Rightarrow> stage \<Rightarrow> gdoc list \<Rightarrow> gdoc list" where
  "run_stage imgs Lookup_images ds = map (lookup_images imgs) ds"
| "run_stage imgs Unwind_images ds = concat (map unwind_images ds)"
| "run_stage imgs (Match_images_status s) ds = filter (images_status_is s) ds"
| "run_stage imgs Sort_images_last_updated_at_desc ds = sort_desc images_last_updated_at ds"
| "run_stage imgs Group_by_id ds = group_by_id ds"
| "run_stage imgs Sort_name_asc ds = sort_key name ds"
| "run_stage imgs (Skip n) ds = drop (nat n) ds"
| "run_stage imgs (Limit n) ds = take (nat n) ds"

definition run_pipeline :: "image list \<Rightarrow> stage list \<Rightarrow> gdoc list \<Rightarrow> gdoc list" where
  "run_pipeline imgs pipeline ds = fold (run_stage imgs) pipeline ds"

text \<open>
  What the driver and the server refuse: an integer that does not fit 64 bits cannot be
  encoded, \<^verbatim>\<open>$skip\<close> needs a non-negative and \<^verbatim>\<open>$limit\<close> a positive argument.
\<close>

definition int64 :: "int \<Rightarrow> bool" where
  "int64 n = (- (2 ^ 63) \<le> n \<and> n < 2 ^ 63)"

fun encodable :: "stage \<Rightarrow> bool" where
  "encodable (Skip n) = int64 n"
| "encodable (Limit n) = int64 n"
| "encodable _ = True"

fun valid_stage :: "stage \<Rightarrow> bool" where
  "valid_stage (Skip n) = (0 \<le> n)"
| "valid_stage (Limit n) = (0 < n)"
| "valid_stage _ = True"

subsection \<open>The aggregation stages on the images collection\<close>

datatype idoc = Image_doc image | Status_count "string option" int

datatype istage = Match_created_at int int | Group_by_status

definition created_between :: "int \<Rightarrow> int \<Rightarrow> idoc \<Rightarrow> bool" where
  "created_between lo hi d =
     (case d of Image_doc i \<Rightarrow> lo \<le> created_at i \<and> created_at i \<le> hi
              | Status_count _ _ \<Rightarrow> False)"

definition status_key :: "idoc \<Rightarrow> string option" where
  "status_key d = (case d of Image_doc i \<Rightarrow> Some (status i) | Status_count _ _ \<Rightarrow> None)"

fun sum_one :: "'k \<Rightarrow> ('k \<times> int) list \<Rightarrow> ('k \<times> int) list" where
  "sum_one k [] = [(k, 1)]"
| "sum_one k ((k', c) # kcs) =
     (if k' = k then (k', c + 1) # kcs else (k', c) # sum_one k kcs)"

fun run_istage :: "istage \<Rightarrow> idoc list \<Rightarrow> idoc list" where
  "run_istage (Match_created_at lo hi) ds = filter (created_between lo hi) ds"
| "run_istage Group_by_status ds =
     map (\<lambda>(k, c). Status_count k c) (fold sum_one (map status_key ds) [])"

subsection \<open>The store\<close>

text \<open>
  The store holds the two collections. To make the effects of a handler visible, it also
  records every operation issued against it, in order. An operation may fail for reasons
  of the store's own; \<open>faults\<close> says, for the operations still to come, which of them
  fail and with what message.
\<close>

datatype op =
    Op_aggregate_groups "stage list"
  | Op_aggregate_images "istage list"
  | Op_find_one oid
  | Op_update_one oid string int

record store =
  groups_collection :: "group list"
  images_collection :: "image list"
  faults :: "string option list"
  oplog :: "op list"

definition next_fault :: "store \<Rightarrow> string option" where
  "next_fault st = (case faults st of [] \<Rightarrow> None | f # _ \<Rightarrow> f)"

definition issue :: "op \<Rightarrow> store \<Rightarrow> store" where
  "issue p st = st\<lparr>faults := tl (faults st), oplog := oplog st @ [p]\<rparr>"

definition groups_aggregate :: "stage list \<Rightarrow> store \<Rightarrow> (exn + gdoc list) \<times> store" where
  "groups_aggregate pipeline st =
     (if \<not> list_all encodable pipeline then (Inl OverflowError, st)
      else
        (case next_fault st of
           Some msg \<Rightarrow> (Inl (PyMongoError msg), issue (Op_aggregate_groups pipeline) st)
         | None \<Rightarrow>
             if \<not> list_all valid_stage pipeline
             then (Inl OperationFailure, issue (Op_aggregate_groups pipeline) st)
             else (Inr (run_pipeline (images_collection st) pipeline
                          (map group_doc (groups_collection st))),
                   issue (Op_aggregate_groups pipeline) st)))"

definition images_aggregate :: "istage list \<Rightarrow> store \<Rightarrow> (exn + idoc list) \<times> store" where
  "images_aggregate pipeline st =
     (case next_fault st of
        Some msg \<Rightarrow> (Inl (PyMongoError msg), issue (Op_aggregate_images pipeline) st)
      | None \<Rightarrow>
          (Inr (fold run_istage pipeline (map Image_doc (images_collection st))),
           issue (Op_aggregate_images pipeline) st))"

text \<open>\<^verbatim>\<open>find_one({'_id': i}, {'status': 1})\<close>: the first match, projected.\<close>

definition find_one :: "oid \<Rightarrow> store \<Rightarrow> (exn + (oid \<times> string) option) \<times> store" where
  "find_one i st =
     (case next_fault st of
        Some msg \<Rightarrow> (Inl (PyMongoError msg), issue (Op_find_one i) st)
      | None \<Rightarrow>
          (Inr (map_option (\<lambda>x. (image_oid x, status x))
                  (find (\<lambda>x. image_oid x = i) (images_collection st))),
           issue (Op_find_one i) st))"

text \<open>
  \<^verbatim>\<open>update_one({'_id': i}, {'$set': {status, last_updated_at}})\<close>: the first match is
  rewritten; the modified count is 1 when that changed the document, 0 otherwise.
\<close>

fun set_first :: "oid \<Rightarrow> string \<Rightarrow> int \<Rightarrow> image list \<Rightarrow> image list \<times> nat" where
  "set_first i s t [] = ([], 0)"
| "set_first i s t (x # xs) =
     (if image_oid x = i then
        (x\<lparr>status := s, last_updated_at := t\<rparr> # xs,
         if x\<lparr>status := s, last_updated_at := t\<rparr> = x then 0 else 1)
      else (case set_first i s t xs of (ys, n) \<Rightarrow> (x # ys, n)))"

definition update_one :: "oid \<Rightarrow> string \<Rightarrow> int \<Rightarrow> store \<Rightarrow> (exn + nat) \<times> store" where
  "update_one i s t st =
     (case next_fault st of
        Some msg \<Rightarrow> (Inl (PyMongoError msg), issue (Op_update_one i s t) st)
      | None \<Rightarrow>
          (case set_first i s t (images_collection st) of
             (imgs, n) \<Rightarrow>
               (Inr n, issue (Op_update_one i s t) (st\<lparr>images_collection := imgs\<rparr>))))"

subsection \<open>Responses\<close>

datatype descr =
    Valid_statuses_are "string list"
  | Str_of exn
  | Text string

datatype body =
    Docs "gdoc list"
  | Error_envelope int string descr
  | Message string
  | Statistics "(string option \<times> int) list"

type_synonym response = "body \<times> nat"

type_synonym args = "string \<rightharpoonup> string"

subsection \<open>\<^verbatim>\<open>GET /groups\<close>\<close>

datatype per_page = From_query string | From_config int

text \<open>
  \<^verbatim>\<open>int(escape(groups_per_page))\<close>: the query string is escaped and parsed; the configured
  integer is printed by \<^verbatim>\<open>escape\<close> and read back unchanged.
\<close>

definition int_escape :: "per_page \<Rightarrow> exn + int" where
  "int_escape g = (case g of From_query s \<Rightarrow> py_int (escape s) | From_config n \<Rightarrow> Inr n)"

definition base_pipeline :: "stage list" where
  "base_pipeline =
     [Lookup_images, Unwind_images, Sort_images_last_updated_at_desc, Group_by_id, Sort_name_asc]"

definition invalid_status :: "config \<Rightarrow> response" where
  "invalid_status cfg =
     (Error_envelope 400 ''Invalid status'' (Valid_statuses_are (VALID_STATUSES cfg)), 400)"

text \<open>
  \<^verbatim>\<open>request.args.get('groups_per_page') or groups_per_page\<close>: a missing or empty
  query value gives the configured default.
\<close>

definition groups_per_page_arg :: "config \<Rightarrow> args \<Rightarrow> per_page" where
  "groups_per_page_arg cfg args =
     (case args ''groups_per_page'' of
        None \<Rightarrow> From_config (DEFAULT_PAGINATION_NUMBER_OF_GROUPS_TO_RETURN cfg)
      | Some g \<Rightarrow>
          if g \<noteq> [] then From_query g
          else From_config (DEFAULT_PAGINATION_NUMBER_OF_GROUPS_TO_RETURN cfg))"

text \<open>
  The status branch: a non-empty status whose escaped form is a valid status puts the
  match stage at index 2 of the pipeline; any other non-empty status ends the request.
\<close>

definition with_status_filter :: "config \<Rightarrow> args \<Rightarrow> stage list \<Rightarrow> response + stage list" where
  "with_status_filter cfg args pipeline =
     (case args ''status'' of
        None \<Rightarrow> Inr pipeline
      | Some status_filter \<Rightarrow>
          if status_filter \<noteq> [] \<and> escape status_filter \<in> set (VALID_STATUSES cfg)
          then Inr (list_insert 2 (Match_images_status status_filter) pipeline)
          else if status_filter \<noteq> [] then Inl (invalid_status cfg)
          else Inr pipeline)"

text \<open>
  The pagination branch: with a non-empty page, both values are parsed, the page first;
  the first \<^verbatim>\<open>ValueError\<close> ends the request, otherwise skip and limit are appended.
\<close>

definition with_pagination :: "config \<Rightarrow> args \<Rightarrow> stage list \<Rightarrow> exn + stage list" where
  "with_pagination cfg args pipeline =
     (case args ''page'' of
        None \<Rightarrow> Inr pipeline
      | Some page_to_return \<Rightarrow>
          if page_to_return \<noteq> [] then
            (case py_int (escape page_to_return) of
               Inl err \<Rightarrow> Inl err
             | Inr page \<Rightarrow>
                 (case int_escape (groups_per_page_arg cfg args) of
                    Inl err \<Rightarrow> Inl err
                  | Inr n \<Rightarrow> Inr (pipeline @ [Skip (page * n), Limit n])))
          else Inr pipeline)"

definition invalid_values :: "exn \<Rightarrow> response" where
  "invalid_values err =
     (Error_envelope 400 ''Invalid values of query parameters'' (Str_of err), 400)"

definition get_groups_with_images :: "config \<Rightarrow> args \<Rightarrow> store \<Rightarrow> (exn + response) \<times> store" where
  "get_groups_with_images cfg args st =
     (case with_status_filter cfg args base_pipeline of
        Inl resp \<Rightarrow> (Inr resp, st)
      | Inr pipeline \<Rightarrow>
          (case with_pagination cfg args pipeline of
             Inl err \<Rightarrow> (Inr (invalid_values err), st)
           | Inr pipeline \<Rightarrow>
               (case groups_aggregate pipeline st of
                  (Inl e, st') \<Rightarrow> (Inl e, st')
                | (Inr groups, st') \<Rightarrow> (Inr (Docs groups, 200), st'))))"

subsection \<open>\<^verbatim>\<open>PUT /images/<image_id>\<close>\<close>

text \<open>
  The request body is a JSON object; \<open>data\<close> is what \<^verbatim>\<open>data.get('status')\<close> gives:
  the string, or nothing. \<open>now\<close> is the reading of the clock.
\<close>

definition mongo_exception :: "exn \<Rightarrow> response" where
  "mongo_exception err = (Error_envelope 500 ''MongoDB exeption occured'' (Str_of err), 500)"

definition update_image_status ::
  "config \<Rightarrow> int \<Rightarrow> string \<Rightarrow> string option \<Rightarrow> store \<Rightarrow> (exn + response) \<times> store" where
  "update_image_status cfg now image_id data st =
     (case ObjectId image_id of
        Inl err \<Rightarrow> (Inr (Error_envelope 400 ''Invalid ObjectId'' (Str_of err), 400), st)
      | Inr image_id \<Rightarrow>
          (case (case data of
                   None \<Rightarrow> None
                 | Some s \<Rightarrow> if s \<in> set (VALID_STATUSES cfg) then Some s else None) of
             None \<Rightarrow> (Inr (invalid_status cfg), st)
           | Some new_status \<Rightarrow>
               (case find_one image_id st of
                  (Inl err, st1) \<Rightarrow> (Inr (mongo_exception err), st1)
                | (Inr found, st1) \<Rightarrow>
                    (let current_status = map_option snd found in
                     if Some new_status \<noteq> current_status then
                       (case update_one image_id new_status now st1 of
                          (Inl err, st2) \<Rightarrow> (Inr (mongo_exception err), st2)
                        | (Inr modified_count, st2) \<Rightarrow>
                            if modified_count \<noteq> 0
                            then (Inr (Message ''Image status updated'', 200), st2)
                            else (Inr (Error_envelope 400 ''Image not found''
                                         (Text ''Specified ID was not found in database''),
                                       400), st2))
                     else (Inr (Message ''Requested status is the same as current'', 200),
                           st1)))))"

subsection \<open>\<^verbatim>\<open>GET /statistics\<close>\<close>

text \<open>
  The dictionary comprehension \<^verbatim>\<open>{item['_id']: item['count'] for item in items}\<close>:
  a later item replaces an earlier one with the same key; a document without a
  \<^verbatim>\<open>count\<close> raises.
\<close>

fun dict_set :: "'k \<Rightarrow> 'v \<Rightarrow> ('k \<times> 'v) list \<Rightarrow> ('k \<times> 'v) list" where
  "dict_set k v [] = [(k, v)]"
| "dict_set k v ((k', v') # kvs) =
     (if k' = k then (k, v) # kvs else (k', v') # dict_set k v kvs)"

fun dict_of_items :: "idoc list \<Rightarrow> (string option \<times> int) list \<Rightarrow> exn + (string option \<times> int) list" where
  "dict_of_items [] d = Inr d"
| "dict_of_items (Status_count k c # items) d = dict_of_items items (dict_set k c d)"
| "dict_of_items (Image_doc i # items) d = Inl (KeyError ''count'')"

definition get_statistics :: "config \<Rightarrow> int \<Rightarrow> args \<Rightarrow> store \<Rightarrow> (exn + response) \<times> store" where
  "get_statistics cfg now args st =
     (let days = STATISTIC_NUMBER_OF_DAYS cfg;
          end_date = now;
          start_date = end_date - timedelta_days days;
          pipeline = [Match_created_at start_date end_date, Group_by_status]
      in
        case images_aggregate pipeline st of
          (Inl e, st') \<Rightarrow> (Inl e, st')
        | (Inr items, st') \<Rightarrow>
            (case dict_of_items items [] of
               Inl e \<Rightarrow> (Inl e, st')
             | Inr statistics \<Rightarrow> (Inr (Statistics statistics, 200), st')))"

subsection \<open>Notions used to state the properties\<close>

text \<open>
  A configuration is plain when every valid status is a non-empty string without any of
  the characters that \<open>escape\<close> rewrites; the statuses \<^verbatim>\<open>new\<close>, \<^verbatim>\<open>review\<close>,
  \<^verbatim>\<open>accepted\<close>, \<^verbatim>\<open>deleted\<close> are.
\<close>

definition html_special :: "char \<Rightarrow> bool" where
  "html_special c = (c \<in> set [CHR ''&'', CHR ''<'', CHR ''>'', CHR 0x27, CHR 0x22])"

definition plain_statuses :: "config \<Rightarrow> bool" where
  "plain_statuses cfg =
     list_all (\<lambda>s. s \<noteq> [] \<and> \<not> list_ex html_special s) (VALID_STATUSES cfg)"

text \<open>The pipeline without pagination, and what it returns on a store.\<close>

definition filtered_pipeline :: "string option \<Rightarrow> stage list" where
  "filtered_pipeline sf =
     (case sf of
        None \<Rightarrow> base_pipeline
      | Some s \<Rightarrow> list_insert 2 (Match_images_status s) base_pipeline)"

definition listing :: "string option \<Rightarrow> store \<Rightarrow> gdoc list" where
  "listing sf st =
     run_pipeline (images_collection st) (filtered_pipeline sf)
       (map group_doc (groups_collection st))"

text \<open>
  The documents that reach the sort stage: one per group and image of that group, with
  the image embedded; under a status filter, only the images of that status.
\<close>

definition row :: "group \<Rightarrow> image \<Rightarrow> gdoc" where
  "row g x = \<lparr>group_oid = group_oid g, name = name g, images = Some (One x), count = None\<rparr>"

definition wanted :: "string option \<Rightarrow> image \<Rightarrow> bool" where
  "wanted sf x = (case sf of None \<Rightarrow> True | Some s \<Rightarrow> status x = s)"

definition rows :: "string option \<Rightarrow> group list \<Rightarrow> image list \<Rightarrow> gdoc list" where
  "rows sf gs imgs =
     concat (map (\<lambda>g. map (row g) (filter (\<lambda>x. group_id x = group_oid g \<and> wanted sf x) imgs)) gs)"

definition img_of :: "gdoc \<Rightarrow> image list" where
  "img_of d = (case images d of Some (One x) \<Rightarrow> [x] | _ \<Rightarrow> [])"

definition is_row :: "gdoc \<Rightarrow> bool" where
  "is_row d = (case images d of Some (One x) \<Rightarrow> True | _ \<Rightarrow> False)"

text \<open>The status that the handler filters on, if any.\<close>

definition status_filter_of :: "config \<Rightarrow> args \<Rightarrow> string option" where
  "status_filter_of cfg args =
     (case args ''status'' of
        None \<Rightarrow> None
      | Some s \<Rightarrow> if s \<noteq> [] \<and> escape s \<in> set (VALID_STATUSES cfg) then Some s else None)"

text \<open>Descending order of the update times of a list of images.\<close>

definition newest_first :: "image list \<Rightarrow> bool" where
  "newest_first xs = sorted_wrt (\<lambda>a b. last_updated_at b \<le> last_updated_at a) xs"

text \<open>The statistics window: from the configured number of days before \<open>now\<close> to \<open>now\<close>.\<close>

definition in_window :: "config \<Rightarrow> int \<Rightarrow> image \<Rightarrow> bool" where
  "in_window cfg now x =
     (now - timedelta_days (STATISTIC_NUMBER_OF_DAYS cfg) \<le> created_at x \<and> created_at x \<le> now)"

definition counted :: "config \<Rightarrow> int \<Rightarrow> string \<Rightarrow> image list \<Rightarrow> image list" where
  "counted cfg now s imgs = filter (\<lambda>x. status x = s \<and> in_window cfg now x) imgs"

text \<open>A small configuration and store on which the statements are exercised.\<close>

definition example_config :: config where
  "example_config =
     \<lparr>VALID_STATUSES = [''new'', ''review'', ''accepted'', ''deleted''],
      STATISTIC_NUMBER_OF_DAYS = 30,
      DEFAULT_PAGINATION_NUMBER_OF_GROUPS_TO_RETURN = 10\<rparr>"

definition example_image :: "oid \<Rightarrow> oid \<Rightarrow> string \<Rightarrow> int \<Rightarrow> int \<Rightarrow> image" where
  "example_image i g s c u =
     \<lparr>image_oid = i, group_id = g, status = s, created_at = c, last_updated_at = u,
      url = ''https://images_service.com/output/image.png''\<rparr>"

definition example_store :: store where
  "example_store =
     \<lparr>groups_collection =
        [\<lparr>group_oid = 1, name = ''Group 1''\<rparr>, \<lparr>group_oid = 2, name = ''Group 0''\<rparr>,
         \<lparr>group_oid = 3, name = ''Group 2''\<rparr>],
      images_collection =
        [example_image 10 1 ''new'' 5 5, example_image 11 1 ''review'' 6 9,
         example_image 12 2 ''new'' 7 7, example_image 13 1 ''new'' 8 8],
      faults = [], oplog = []\<rparr>"

section \<open>Properties\<close>

subsection \<open>The first stages\<close>

lemma unwind_lookup:
  "unwind_images (lookup_images imgs (group_doc g)) =
     map (row g) (filter (\<lambda>x. group_id x = group_oid g) imgs)"
  by (simp add: unwind_images_def lookup_images_def group_doc_def row_def comp_def)

lemma status_is_row: "images_status_is s (row g x) = (status x = s)"
  by (simp add: images_status_is_def row_def)

lemma unwound_rows:
  "concat (map (unwind_images \<circ> (lookup_images imgs \<circ> group_doc)) gs) = rows None gs imgs"
  by (induction gs) (simp_all add: rows_def wanted_def unwind_lookup)

lemma matched_rows:
  "filter (images_status_is s) (rows None gs imgs) = rows (Some s) gs imgs"
  by (induction gs) (simp_all add: rows_def wanted_def filter_map comp_def status_is_row conj_commute)

lemma listing_rows:
  "listing sf st =
     sort_key name (group_by_id (sort_desc images_last_updated_at
       (rows sf (groups_collection st) (images_collection st))))"
  by (cases sf)
     (simp_all add: listing_def filtered_pipeline_def base_pipeline_def list_insert_def
        run_pipeline_def unwound_rows matched_rows)

lemma rows_member:
  "d \<in> set (rows sf gs imgs) \<longleftrightarrow>
     (\<exists>g\<in>set gs. \<exists>x\<in>set imgs. group_id x = group_oid g \<and> wanted sf x \<and> d = row g x)"
  by (auto simp: rows_def)


subsection \<open>The group stage\<close>

lemma acc_id_accumulate:
  "map acc_id (accumulate d as) =
     (if group_oid d \<in> set (map acc_id as) then map acc_id as else map acc_id as @ [group_oid d])"
  by (induction as) auto

lemma distinct_fold_accumulate:
  "distinct (map acc_id as) \<Longrightarrow> distinct (map acc_id (fold accumulate ds as))"
  by (induction ds arbitrary: as) (simp_all add: acc_id_accumulate)

lemma set_fold_accumulate:
  "set (map acc_id (fold accumulate ds as)) = set (map acc_id as) \<union> set (map group_oid ds)"
proof (induction ds arbitrary: as)
  case Nil
  then show ?case by simp
next
  case (Cons d ds)
  have "set (map acc_id (accumulate d as)) = insert (group_oid d) (set (map acc_id as))"
    by (auto simp: acc_id_accumulate)
  with Cons show ?case by simp
qed

lemma find_accumulate:
  "find (\<lambda>a. acc_id a = i) (accumulate d as) =
     (if group_oid d = i then
        Some (case find (\<lambda>a. acc_id a = i) as of
                None \<Rightarrow> \<lparr>acc_id = i, first_name = name d, pushed = push_images d, summed = 1\<rparr>
              | Some a \<Rightarrow> a\<lparr>pushed := pushed a @ push_images d, summed := summed a + 1\<rparr>)
      else find (\<lambda>a. acc_id a = i) as)"
  by (induction as) auto

lemma find_fold_accumulate:
  "find (\<lambda>a. acc_id a = i) (fold accumulate ds as) =
     (case find (\<lambda>a. acc_id a = i) as of
        Some a \<Rightarrow>
          Some (a\<lparr>pushed := pushed a @ concat (map push_images (filter (\<lambda>d. group_oid d = i) ds)),
                  summed := summed a + int (length (filter (\<lambda>d. group_oid d = i) ds))\<rparr>)
      | None \<Rightarrow>
          (case filter (\<lambda>d. group_oid d = i) ds of
             [] \<Rightarrow> None
           | d # r \<Rightarrow>
               Some \<lparr>acc_id = i, first_name = name d,
                     pushed = concat (map push_images (d # r)),
                     summed = 1 + int (length r)\<rparr>))"
proof (induction ds arbitrary: as)
  case Nil
  then show ?case by (simp split: option.splits)
next
  case (Cons d ds)
  show ?case
    by (simp add: Cons.IH find_accumulate split: option.splits list.splits)
qed

lemma find_member:
  "distinct (map acc_id as) \<Longrightarrow> a \<in> set as \<Longrightarrow> find (\<lambda>b. acc_id b = acc_id a) as = Some a"
  by (induction as) (auto simp: image_iff)

lemma group_by_id_member:
  assumes "g \<in> set (group_by_id ds)"
  shows "\<exists>d r. filter (\<lambda>x. group_oid x = group_oid g) ds = d # r \<and> name g = name d \<and>
           images g = Some (Many (concat (map push_images (d # r)))) \<and>
           count g = Some (1 + int (length r))"
proof -
  from assms obtain a where a: "a \<in> set (fold accumulate ds [])" and g: "g = acc_doc a"
    by (auto simp: group_by_id_def)
  have "distinct (map acc_id (fold accumulate ds []))"
    by (rule distinct_fold_accumulate) simp
  from find_member [OF this a]
  have "find (\<lambda>b. acc_id b = acc_id a) (fold accumulate ds []) = Some a" .
  then have "\<exists>d r. filter (\<lambda>x. group_oid x = acc_id a) ds = d # r \<and>
           a = \<lparr>acc_id = acc_id a, first_name = name d,
                 pushed = concat (map push_images (d # r)), summed = 1 + int (length r)\<rparr>"
    by (auto simp: find_fold_accumulate split: list.splits)
  then obtain d r where f: "filter (\<lambda>x. group_oid x = acc_id a) ds = d # r"
    and a': "a = \<lparr>acc_id = acc_id a, first_name = name d,
                   pushed = concat (map push_images (d # r)), summed = 1 + int (length r)\<rparr>"
    by blast
  have "first_name a = name d" "pushed a = concat (map push_images (d # r))"
    "summed a = 1 + int (length r)"
    by (subst a', simp)+
  with f show ?thesis
    unfolding g by (simp add: acc_doc_def)
qed

lemma group_by_id_ids:
  "set (map group_oid (group_by_id ds)) = set (map group_oid ds)"
  "distinct (map group_oid (group_by_id ds))"
proof -
  have m: "map group_oid (group_by_id ds) = map acc_id (fold accumulate ds [])"
    by (simp add: group_by_id_def acc_doc_def comp_def)
  show "set (map group_oid (group_by_id ds)) = set (map group_oid ds)"
    unfolding m using set_fold_accumulate [of ds "[]"] by simp
  show "distinct (map group_oid (group_by_id ds))"
    unfolding m by (rule distinct_fold_accumulate) simp
qed


subsection \<open>The sort stages\<close>

lemma set_sort_desc: "set (sort_desc k xs) = set xs"
  by (simp add: sort_desc_def)

lemma sorted_sort_desc: "sorted_wrt (\<lambda>a b. k b \<le> k a) (sort_desc k xs)"
proof -
  have "sorted (map k (sort_key k (rev xs)))"
    by (rule sorted_sort_key)
  then have "sorted_wrt (\<lambda>a b. k a \<le> k b) (sort_key k (rev xs))"
    by (simp add: sorted_map)
  then show ?thesis
    by (simp add: sort_desc_def sorted_wrt_rev)
qed

lemma filter_sort_desc: "filter P (sort_desc k xs) = sort_desc k (filter P xs)"
proof -
  have "filter P (rev (sort_key k (rev xs))) = rev (filter P (sort_key k (rev xs)))"
    by (simp add: rev_filter)
  also have "\<dots> = rev (sort_key k (filter P (rev xs)))"
    by (simp add: filter_sort)
  also have "\<dots> = rev (sort_key k (rev (filter P xs)))"
    by (simp add: rev_filter)
  finally show ?thesis
    by (simp add: sort_desc_def)
qed

lemma is_row_row: "is_row (row g x)"
  by (simp add: is_row_def row_def)

lemma img_of_row: "img_of (row g x) = [x]"
  by (simp add: img_of_def row_def)

lemma is_row_cases: "is_row d \<Longrightarrow> \<exists>x. images d = Some (One x)"
  by (auto simp: is_row_def split: option.splits ifield.splits)

lemma push_rows:
  "list_all is_row ds \<Longrightarrow> concat (map push_images ds) = map One (concat (map img_of ds))"
  by (induction ds) (auto simp: push_images_def img_of_def dest!: is_row_cases)

lemma key_row:
  "is_row d \<Longrightarrow> x \<in> set (img_of d) \<Longrightarrow> images_last_updated_at d = Some (last_updated_at x)"
  by (auto simp: images_last_updated_at_def img_of_def dest!: is_row_cases)

lemma newest_first_rows:
  assumes "list_all is_row ds"
    and "sorted_wrt (\<lambda>a b. images_last_updated_at b \<le> images_last_updated_at a) ds"
  shows "newest_first (concat (map img_of ds))"
  using assms
proof (induction ds)
  case Nil
  then show ?case by (simp add: newest_first_def)
next
  case (Cons d ds)
  from Cons.prems obtain x where x: "images d = Some (One x)"
    by (auto dest: is_row_cases)
  have later: "last_updated_at y \<le> last_updated_at x" if "y \<in> set (concat (map img_of ds))" for y
  proof -
    from that obtain e where e: "e \<in> set ds" "y \<in> set (img_of e)" by auto
    with Cons.prems have "is_row e" "images_last_updated_at e \<le> images_last_updated_at d"
      by (auto simp: list_all_iff)
    moreover have "images_last_updated_at d = Some (last_updated_at x)"
      using x by (simp add: images_last_updated_at_def)
    moreover have "images_last_updated_at e = Some (last_updated_at y)"
      using \<open>is_row e\<close> e(2) by (rule key_row)
    ultimately show ?thesis
      by simp
  qed
  from Cons have "newest_first (concat (map img_of ds))" by simp
  moreover have "img_of d = [x]"
    using x by (simp add: img_of_def)
  ultimately show ?case
    using later by (simp add: newest_first_def)
qed


subsection \<open>What the unpaginated pipeline returns\<close>

lemma row_sel: "group_oid (row g x) = group_oid g" "name (row g x) = name g"
  by (simp_all add: row_def)

lemma rows_are_rows: "list_all is_row (rows sf gs imgs)"
  by (auto simp: list_all_iff rows_member is_row_row)

lemma length_imgs: "list_all is_row ds \<Longrightarrow> length (concat (map img_of ds)) = length ds"
  by (induction ds) (auto simp: img_of_def dest!: is_row_cases)

lemma listing_names_sorted: "sorted (map name (listing sf st))"
  by (simp add: listing_rows sorted_sort_key)

lemma listing_member:
  assumes "g \<in> set (listing sf st)"
  shows "\<exists>ims. ims \<noteq> [] \<and> images g = Some (Many (map One ims)) \<and>
           count g = Some (int (length ims)) \<and> newest_first ims \<and>
           (\<forall>x\<in>set ims. x \<in> set (images_collection st) \<and> group_id x = group_oid g \<and> wanted sf x) \<and>
           group_oid g \<in> group_oid ` set (groups_collection st)"
proof -
  define R where "R = rows sf (groups_collection st) (images_collection st)"
  define S where "S = sort_desc images_last_updated_at R"
  define F where "F = filter (\<lambda>d. group_oid d = group_oid g) S"
  define ims where "ims = concat (map img_of F)"
  from assms have "g \<in> set (group_by_id S)"
    by (simp add: listing_rows S_def R_def)
  from group_by_id_member [OF this] obtain d r where
    f: "F = d # r" and
    im: "images g = Some (Many (concat (map push_images (d # r))))" and
    c: "count g = Some (1 + int (length r))"
    unfolding F_def by blast
  have sub: "set F \<subseteq> set R"
    by (auto simp: F_def S_def set_sort_desc)
  have rowsF: "list_all is_row F"
    using sub rows_are_rows [of sf "groups_collection st" "images_collection st"]
    by (auto simp: list_all_iff R_def)
  have len: "length ims = length F"
    unfolding ims_def using rowsF by (rule length_imgs)
  have "sorted_wrt (\<lambda>a b. images_last_updated_at b \<le> images_last_updated_at a) F"
    unfolding F_def S_def by (intro sorted_wrt_filter sorted_sort_desc)
  with rowsF have nf: "newest_first ims"
    unfolding ims_def by (rule newest_first_rows)
  have mem: "x \<in> set (images_collection st) \<and> group_id x = group_oid g \<and> wanted sf x"
    if "x \<in> set ims" for x
  proof -
    from that obtain e where e: "e \<in> set F" "x \<in> set (img_of e)"
      by (auto simp: ims_def)
    then have "e \<in> set R" "group_oid e = group_oid g"
      using sub by (auto simp: F_def)
    then obtain gr y where "y \<in> set (images_collection st)" "group_id y = group_oid gr"
      "wanted sf y" "e = row gr y"
      by (auto simp: R_def rows_member)
    with e \<open>group_oid e = group_oid g\<close> show ?thesis
      by (simp add: img_of_row row_sel)
  qed
  have "d \<in> set R" using f sub by auto
  then have gid: "group_oid d \<in> group_oid ` set (groups_collection st)"
    by (auto simp: R_def rows_member row_sel)
  have "d \<in> set F" using f by simp
  then have "group_oid d = group_oid g" by (simp add: F_def)
  with gid have g_in: "group_oid g \<in> group_oid ` set (groups_collection st)" by simp
  have "images g = Some (Many (map One ims))"
    using im rowsF by (simp add: ims_def f [symmetric] push_rows)
  moreover have "count g = Some (int (length ims))"
    using c len f by simp
  moreover have "ims \<noteq> []"
    using len f by auto
  ultimately show ?thesis
    using nf mem g_in by blast
qed

lemma listing_ids:
  "group_oid ` set (listing sf st) =
     {group_oid gr |gr. gr \<in> set (groups_collection st) \<and>
        (\<exists>x\<in>set (images_collection st). group_id x = group_oid gr \<and> wanted sf x)}"
proof -
  have "group_oid ` set (listing sf st) =
          group_oid ` set (rows sf (groups_collection st) (images_collection st))"
    using group_by_id_ids(1) [of "sort_desc images_last_updated_at
            (rows sf (groups_collection st) (images_collection st))"]
    by (simp add: listing_rows set_sort_desc)
  also have "\<dots> = {group_oid gr |gr. gr \<in> set (groups_collection st) \<and>
        (\<exists>x\<in>set (images_collection st). group_id x = group_oid gr \<and> wanted sf x)}"
  proof (intro set_eqI iffI)
    fix i
    assume "i \<in> group_oid ` set (rows sf (groups_collection st) (images_collection st))"
    then obtain gr x where "gr \<in> set (groups_collection st)" "x \<in> set (images_collection st)"
      "group_id x = group_oid gr" "wanted sf x" "i = group_oid (row gr x)"
      by (auto simp: rows_member)
    then show "i \<in> {group_oid gr |gr. gr \<in> set (groups_collection st) \<and>
        (\<exists>x\<in>set (images_collection st). group_id x = group_oid gr \<and> wanted sf x)}"
      unfolding row_sel by blast
  next
    fix i
    assume "i \<in> {group_oid gr |gr. gr \<in> set (groups_collection st) \<and>
        (\<exists>x\<in>set (images_collection st). group_id x = group_oid gr \<and> wanted sf x)}"
    then obtain gr x where "gr \<in> set (groups_collection st)" "x \<in> set (images_collection st)"
      "group_id x = group_oid gr" "wanted sf x" "i = group_oid gr"
      by blast
    then have "row gr x \<in> set (rows sf (groups_collection st) (images_collection st))"
      "group_oid (row gr x) = i"
      by (auto simp: rows_member row_sel)
    then show "i \<in> group_oid ` set (rows sf (groups_collection st) (images_collection st))"
      by (metis imageI)
  qed
  finally show ?thesis .
qed

lemma listing_distinct: "distinct (map group_oid (listing sf st))"
proof -
  let ?gs = "group_by_id (sort_desc images_last_updated_at
               (rows sf (groups_collection st) (images_collection st)))"
  have "distinct (map group_oid ?gs)"
    by (rule group_by_id_ids(2))
  then have "distinct ?gs" "inj_on group_oid (set ?gs)"
    by (simp_all add: distinct_map)
  then show ?thesis
    by (simp add: listing_rows distinct_map)
qed


subsection \<open>The images of one group\<close>

lemma filter_rows_of:
  "filter (\<lambda>d. group_oid d = i) (map (row g) xs) = (if group_oid g = i then map (row g) xs else [])"
  by (induction xs) (simp_all add: row_sel)

lemma rows_other_groups:
  "i \<notin> group_oid ` set gs \<Longrightarrow> filter (\<lambda>d. group_oid d = i) (rows sf gs imgs) = []"
  by (induction gs) (auto simp: rows_def filter_rows_of)

lemma rows_of_group:
  assumes "distinct (map group_oid gs)" and "gr \<in> set gs"
  shows "filter (\<lambda>d. group_oid d = group_oid gr) (rows sf gs imgs) =
           map (row gr) (filter (\<lambda>x. group_id x = group_oid gr \<and> wanted sf x) imgs)"
  using assms
proof (induction gs)
  case Nil
  then show ?case by simp
next
  case (Cons g gs)
  have split: "rows sf (g # gs) imgs =
      map (row g) (filter (\<lambda>x. group_id x = group_oid g \<and> wanted sf x) imgs) @ rows sf gs imgs"
    by (simp add: rows_def)
  show ?case
  proof (cases "gr = g")
    case True
    with Cons.prems have "group_oid g \<notin> group_oid ` set gs" by simp
    then have "filter (\<lambda>d. group_oid d = group_oid g) (rows sf gs imgs) = []"
      by (rule rows_other_groups)
    with True show ?thesis
      by (simp add: split filter_rows_of)
  next
    case False
    with Cons.prems have in_gs: "gr \<in> set gs" and "group_oid g \<noteq> group_oid gr"
      by auto
    with Cons show ?thesis
      by (simp add: split filter_rows_of)
  qed
qed

lemma key_of_row: "images_last_updated_at (row g x) = Some (last_updated_at x)"
  by (simp add: images_last_updated_at_def row_def)

lemma insort_row:
  "insort_key images_last_updated_at (row g x) (map (row g) ys) =
     map (row g) (insort_key last_updated_at x ys)"
  by (induction ys) (simp_all add: key_of_row)

lemma sort_key_row:
  "sort_key images_last_updated_at (map (row g) xs) = map (row g) (sort_key last_updated_at xs)"
  by (induction xs) (simp_all add: insort_row)

lemma sort_desc_row:
  "sort_desc images_last_updated_at (map (row g) xs) = map (row g) (sort_desc last_updated_at xs)"
  by (simp add: sort_desc_def rev_map sort_key_row)

lemma push_row_list: "concat (map push_images (map (row g) xs)) = map One xs"
  by (induction xs) (simp_all add: push_images_def row_def)

lemma listing_member_exact:
  assumes "distinct (map group_oid (groups_collection st))" and "g \<in> set (listing sf st)"
  shows "images g = Some (Many (map One (sort_desc last_updated_at
           (filter (\<lambda>x. group_id x = group_oid g \<and> wanted sf x) (images_collection st)))))"
proof -
  define R where "R = rows sf (groups_collection st) (images_collection st)"
  define S where "S = sort_desc images_last_updated_at R"
  from assms(2) have "g \<in> set (group_by_id S)"
    by (simp add: listing_rows S_def R_def)
  from group_by_id_member [OF this] obtain d r where
    f: "filter (\<lambda>x. group_oid x = group_oid g) S = d # r" and
    im: "images g = Some (Many (concat (map push_images (d # r))))"
    by blast
  from listing_member [OF assms(2)] obtain gr where
    gr: "gr \<in> set (groups_collection st)" "group_oid gr = group_oid g"
    by auto
  have "filter (\<lambda>x. group_oid x = group_oid g) S =
          sort_desc images_last_updated_at (filter (\<lambda>x. group_oid x = group_oid gr) R)"
    by (simp add: S_def filter_sort_desc gr)
  also have "\<dots> = map (row gr) (sort_desc last_updated_at
      (filter (\<lambda>x. group_id x = group_oid gr \<and> wanted sf x) (images_collection st)))"
    unfolding R_def by (simp add: rows_of_group [OF assms(1) gr(1)] sort_desc_row)
  finally have "d # r = map (row gr) (sort_desc last_updated_at
      (filter (\<lambda>x. group_id x = group_oid g \<and> wanted sf x) (images_collection st)))"
    using f gr by simp
  with im show ?thesis
    by (simp only: push_row_list)
qed

subsection \<open>The listing handler\<close>

lemma groups_aggregate_Inr:
  assumes "groups_aggregate pl st = (Inr ds, st')"
  shows "ds = run_pipeline (images_collection st) pl (map group_doc (groups_collection st))"
    and "st' = issue (Op_aggregate_groups pl) st"
    and "next_fault st = None" and "list_all valid_stage pl" and "list_all encodable pl"
  using assms by (auto simp: groups_aggregate_def split: if_splits option.splits)

lemma with_status_filter_Inr:
  "with_status_filter cfg args base_pipeline = Inr pl \<Longrightarrow>
     pl = filtered_pipeline (status_filter_of cfg args)"
  by (auto simp: with_status_filter_def status_filter_of_def filtered_pipeline_def
      split: option.splits if_splits)

lemma with_status_filter_Inl:
  "with_status_filter cfg args pl = Inl r \<Longrightarrow> r = invalid_status cfg"
  by (auto simp: with_status_filter_def split: option.splits if_splits)

lemma with_pagination_Inr:
  "with_pagination cfg args pl = Inr pl' \<Longrightarrow> pl' = pl \<or> (\<exists>k n. pl' = pl @ [Skip k, Limit n])"
  by (auto simp: with_pagination_def split: option.splits if_splits sum.splits)

lemma run_paginated:
  "run_pipeline imgs (pl @ [Skip k, Limit n]) ds = take (nat n) (drop (nat k) (run_pipeline imgs pl ds))"
  by (simp add: run_pipeline_def)

lemma get_groups_Docs:
  assumes "get_groups_with_images cfg args st = (Inr (Docs ds, code), st')"
  shows "ds = listing (status_filter_of cfg args) st \<or>
         (\<exists>k n. ds = take (nat n) (drop (nat k) (listing (status_filter_of cfg args) st)))"
proof -
  from assms obtain pl pl' where
    1: "with_status_filter cfg args base_pipeline = Inr pl" and
    2: "with_pagination cfg args pl = Inr pl'" and
    3: "groups_aggregate pl' st = (Inr ds, st')"
    by (auto simp: get_groups_with_images_def invalid_status_def invalid_values_def
        split: sum.splits prod.splits dest!: with_status_filter_Inl)
  from groups_aggregate_Inr(1) [OF 3]
  have ds: "ds = run_pipeline (images_collection st) pl' (map group_doc (groups_collection st))" .
  from with_status_filter_Inr [OF 1] have pl: "pl = filtered_pipeline (status_filter_of cfg args)" .
  from with_pagination_Inr [OF 2] show ?thesis
  proof
    assume "pl' = pl"
    then show ?thesis by (simp add: ds pl listing_def)
  next
    assume "\<exists>k n. pl' = pl @ [Skip k, Limit n]"
    then obtain k n where "pl' = pl @ [Skip k, Limit n]" by blast
    then have "ds = take (nat n) (drop (nat k) (listing (status_filter_of cfg args) st))"
      by (simp add: ds pl run_paginated listing_def)
    then show ?thesis by blast
  qed
qed

lemma get_groups_Docs_subset:
  assumes "get_groups_with_images cfg args st = (Inr (Docs ds, code), st')"
  shows "set ds \<subseteq> set (listing (status_filter_of cfg args) st)"
  using get_groups_Docs [OF assms] by (auto dest: in_set_takeD in_set_dropD)

section \<open>The claims about the listing\<close>

lemma example_unfiltered:
  "get_groups_with_images example_config Map.empty example_store =
     (Inr (Docs (listing None example_store), 200),
      issue (Op_aggregate_groups base_pipeline) example_store)"
  by code_simp

lemma example_listing_nonempty: "listing None example_store \<noteq> []"
  by code_simp

text \<open>
  C4. In every group object of every successful \<^verbatim>\<open>GET /groups\<close> response, whatever the
  filter and the pagination, the \<open>count\<close> field is the length of the \<open>images\<close> array.
\<close>

theorem count_is_length_of_images:
  assumes "get_groups_with_images cfg args st = (Inr (Docs ds, code), st')"
  shows "\<forall>g\<in>set ds. \<exists>xs. images g = Some (Many xs) \<and> count g = Some (int (length xs))"
proof
  fix g
  assume "g \<in> set ds"
  with get_groups_Docs_subset [OF assms]
  have "g \<in> set (listing (status_filter_of cfg args) st)" by blast
  from listing_member [OF this] obtain ims where
    "images g = Some (Many (map One ims))" "count g = Some (int (length ims))"
    by blast
  then show "\<exists>xs. images g = Some (Many xs) \<and> count g = Some (int (length xs))"
    by simp
qed

theorem count_is_length_of_images_witness:
  "get_groups_with_images example_config Map.empty example_store =
     (Inr (Docs (listing None example_store), 200),
      issue (Op_aggregate_groups base_pipeline) example_store)
   \<and> listing None example_store \<noteq> []
   \<and> list_all (\<lambda>g. \<exists>xs. images g = Some (Many xs) \<and> count g = Some (int (length xs)))
        (listing None example_store)"
  using count_is_length_of_images [OF example_unfiltered] example_unfiltered
    example_listing_nonempty
  by (simp add: list_all_iff)

text \<open>
  C5. In every successful \<^verbatim>\<open>GET /groups\<close> response the group objects are in ascending
  order of \<open>name\<close>, and the images of each group object are in descending order of
  \<open>last_updated_at\<close>.
\<close>

theorem groups_by_name_images_newest_first:
  assumes "get_groups_with_images cfg args st = (Inr (Docs ds, code), st')"
  shows "sorted (map name ds) \<and>
         (\<forall>g\<in>set ds. \<exists>ims. images g = Some (Many (map One ims)) \<and> newest_first ims)"
proof
  from get_groups_Docs [OF assms] show "sorted (map name ds)"
    by (auto simp: listing_names_sorted take_map [symmetric] drop_map [symmetric]
        intro!: sorted_wrt_take sorted_wrt_drop)
next
  show "\<forall>g\<in>set ds. \<exists>ims. images g = Some (Many (map One ims)) \<and> newest_first ims"
  proof
    fix g
    assume "g \<in> set ds"
    with get_groups_Docs_subset [OF assms]
    have "g \<in> set (listing (status_filter_of cfg args) st)" by blast
    from listing_member [OF this]
    show "\<exists>ims. images g = Some (Many (map One ims)) \<and> newest_first ims"
      by blast
  qed
qed

theorem groups_by_name_images_newest_first_witness:
  "get_groups_with_images example_config Map.empty example_store =
     (Inr (Docs (listing None example_store), 200),
      issue (Op_aggregate_groups base_pipeline) example_store)
   \<and> map name (listing None example_store) = [''Group 0'', ''Group 1'']
   \<and> sorted (map name (listing None example_store))
   \<and> list_all (\<lambda>g. \<exists>ims. images g = Some (Many (map One ims)) \<and> newest_first ims)
        (listing None example_store)"
proof -
  have "map name (listing None example_store) = [''Group 0'', ''Group 1'']"
    by code_simp
  with groups_by_name_images_newest_first [OF example_unfiltered] example_unfiltered
  show ?thesis
    by (simp add: list_all_iff)
qed

text \<open>
  C10. A group without any image is absent from every \<^verbatim>\<open>GET /groups\<close> response, also
  when no status filter is given: no group object has an empty images array or the count 0.
\<close>

theorem group_without_images_absent:
  assumes "get_groups_with_images cfg args st = (Inr (Docs ds, code), st')"
  shows "(\<forall>gr\<in>set (groups_collection st).
            (\<forall>x\<in>set (images_collection st). group_id x \<noteq> group_oid gr) \<longrightarrow>
            group_oid gr \<notin> group_oid ` set ds)
         \<and> (\<forall>g\<in>set ds. images g \<noteq> Some (Many []) \<and> count g \<noteq> Some 0)"
proof -
  have mem: "\<exists>ims. ims \<noteq> [] \<and> images g = Some (Many (map One ims)) \<and>
           count g = Some (int (length ims)) \<and>
           (\<forall>x\<in>set ims. x \<in> set (images_collection st) \<and> group_id x = group_oid g)"
    if "g \<in> set ds" for g
  proof -
    from that get_groups_Docs_subset [OF assms]
    have "g \<in> set (listing (status_filter_of cfg args) st)" by blast
    from listing_member [OF this] show ?thesis by blast
  qed
  show ?thesis
  proof (intro conjI ballI impI)
    fix gr
    assume none: "\<forall>x\<in>set (images_collection st). group_id x \<noteq> group_oid gr"
    show "group_oid gr \<notin> group_oid ` set ds"
    proof
      assume "group_oid gr \<in> group_oid ` set ds"
      then obtain g where g: "g \<in> set ds" "group_oid g = group_oid gr" by auto
      from mem [OF g(1)] obtain ims where "ims \<noteq> []"
        and all: "\<forall>x\<in>set ims. x \<in> set (images_collection st) \<and> group_id x = group_oid g"
        by blast
      then have "hd ims \<in> set ims" by simp
      with all have "hd ims \<in> set (images_collection st)" "group_id (hd ims) = group_oid g"
        by auto
      with none g(2) show False by auto
    qed
  next
    fix g
    assume "g \<in> set ds"
    from mem [OF this] show "images g \<noteq> Some (Many [])" by auto
  next
    fix g
    assume "g \<in> set ds"
    from mem [OF this] show "count g \<noteq> Some 0" by auto
  qed
qed


theorem group_without_images_absent_witness:
  "get_groups_with_images example_config Map.empty example_store =
     (Inr (Docs (listing None example_store), 200),
      issue (Op_aggregate_groups base_pipeline) example_store)
   \<and> \<lparr>group_oid = 3, name = ''Group 2''\<rparr> \<in> set (groups_collection example_store)
   \<and> list_all (\<lambda>x. group_id x \<noteq> 3) (images_collection example_store)
   \<and> 3 \<notin> group_oid ` set (listing None example_store)
   \<and> list_all (\<lambda>g. images g \<noteq> Some (Many []) \<and> count g \<noteq> Some 0)
        (listing None example_store)"
proof -
  have g: "\<lparr>group_oid = 3, name = ''Group 2''\<rparr> \<in> set (groups_collection example_store)"
    by (simp add: example_store_def)
  have none: "\<forall>x\<in>set (images_collection example_store). group_id x \<noteq> 3"
    by (simp add: example_store_def example_image_def)
  from group_without_images_absent [OF example_unfiltered] g none
  have "3 \<notin> group_oid ` set (listing None example_store)"
    "\<forall>g\<in>set (listing None example_store). images g \<noteq> Some (Many []) \<and> count g \<noteq> Some 0"
    by force+
  with g none example_unfiltered show ?thesis
    by (simp add: list_all_iff)
qed

subsection \<open>Plain statuses and \<open>escape\<close>\<close>

lemma escape_Cons: "escape (c # cs) = escape_char c @ escape cs"
  by (simp add: escape_def)

lemma escape_plain: "\<not> list_ex html_special s \<Longrightarrow> escape s = s"
  by (induction s) (simp_all add: escape_Cons escape_char_def html_special_def, simp add: escape_def)

lemma escape_special: "list_ex html_special s \<Longrightarrow> CHR ''&'' \<in> set (escape s)"
  by (induction s) (auto simp: escape_Cons escape_char_def html_special_def)

lemma plain_statusesD:
  "plain_statuses cfg \<Longrightarrow> t \<in> set (VALID_STATUSES cfg) \<Longrightarrow> t \<noteq> [] \<and> \<not> list_ex html_special t"
  by (auto simp: plain_statuses_def list_all_iff)

lemma escape_valid_iff:
  assumes "plain_statuses cfg"
  shows "escape s \<in> set (VALID_STATUSES cfg) \<longleftrightarrow> s \<in> set (VALID_STATUSES cfg)"
proof
  assume "s \<in> set (VALID_STATUSES cfg)"
  with assms show "escape s \<in> set (VALID_STATUSES cfg)"
    by (simp add: plain_statusesD escape_plain)
next
  assume v: "escape s \<in> set (VALID_STATUSES cfg)"
  with assms have "\<not> list_ex html_special (escape s)"
    by (simp add: plain_statusesD)
  then have "CHR ''&'' \<notin> set (escape s)"
    by (auto simp: list_ex_iff html_special_def)
  then have "\<not> list_ex html_special s"
    using escape_special by blast
  then have "escape s = s" by (rule escape_plain)
  with v show "s \<in> set (VALID_STATUSES cfg)" by simp
qed

lemma status_filter_of_valid:
  assumes "plain_statuses cfg" and "args ''status'' = Some s" and "s \<in> set (VALID_STATUSES cfg)"
  shows "status_filter_of cfg args = Some s"
  using assms plain_statusesD [OF assms(1,3)]
  by (simp add: status_filter_of_def escape_valid_iff)

lemma example_plain: "plain_statuses example_config"
  by code_simp

text \<open>
  C8 (amended). A \<^verbatim>\<open>GET /groups\<close> request whose status value is not empty and not in the
  valid set (of a plain configuration) gets the 400 response that names the valid set,
  and the store is left as it was: no operation is issued.
\<close>

theorem invalid_status_rejected:
  assumes "plain_statuses cfg"
    and "args ''status'' = Some s"
    and "s \<noteq> []"
    and "s \<notin> set (VALID_STATUSES cfg)"
  shows "get_groups_with_images cfg args st =
           (Inr (Error_envelope 400 ''Invalid status'' (Valid_statuses_are (VALID_STATUSES cfg)),
                 400), st)"
  using assms
  by (simp add: get_groups_with_images_def with_status_filter_def invalid_status_def
      escape_valid_iff)

theorem invalid_status_rejected_witness:
  "plain_statuses example_config
   \<and> [''status'' \<mapsto> ''approved''] ''status'' = Some ''approved''
   \<and> ''approved'' \<noteq> []
   \<and> ''approved'' \<notin> set (VALID_STATUSES example_config)
   \<and> get_groups_with_images example_config [''status'' \<mapsto> ''approved''] example_store =
       (Inr (Error_envelope 400 ''Invalid status''
               (Valid_statuses_are (VALID_STATUSES example_config)), 400),
        example_store)"
proof -
  have 1: "[''status'' \<mapsto> ''approved''] ''status'' = Some ''approved''" by simp
  have 2: "''approved'' \<noteq> []" by simp
  have 3: "''approved'' \<notin> set (VALID_STATUSES example_config)"
    by (simp add: example_config_def)
  from invalid_status_rejected
         [of example_config "[''status'' \<mapsto> ''approved'']" "''approved''" example_store]
       example_plain 1 2 3
  show ?thesis by simp
qed

theorem empty_status_not_rejected:
  "[''status'' \<mapsto> ([] :: string)] ''status'' = Some []
   \<and> [] \<notin> set (VALID_STATUSES example_config)
   \<and> get_groups_with_images example_config [''status'' \<mapsto> []] example_store =
       (Inr (Docs (listing None example_store), 200),
        issue (Op_aggregate_groups base_pipeline) example_store)
   \<and> oplog (issue (Op_aggregate_groups base_pipeline) example_store) =
       [Op_aggregate_groups base_pipeline]"
  by code_simp

lemma get_groups_unpaginated:
  assumes "get_groups_with_images cfg args st = (Inr (Docs ds, code), st')"
    and "args ''page'' = None \<or> args ''page'' = Some []"
  shows "ds = listing (status_filter_of cfg args) st"
proof -
  from assms(1) obtain pl pl' where
    1: "with_status_filter cfg args base_pipeline = Inr pl" and
    2: "with_pagination cfg args pl = Inr pl'" and
    3: "groups_aggregate pl' st = (Inr ds, st')"
    by (auto simp: get_groups_with_images_def invalid_status_def invalid_values_def
        split: sum.splits prod.splits dest!: with_status_filter_Inl)
  from 2 assms(2) have "pl' = pl"
    by (auto simp: with_pagination_def)
  with groups_aggregate_Inr(1) [OF 3] with_status_filter_Inr [OF 1] show ?thesis
    by (simp add: listing_def)
qed

text \<open>
  C1 (amended). For a \<^verbatim>\<open>GET /groups\<close> request whose status filter is in the valid set
  (of a plain configuration, over a store whose groups have distinct identifiers): every
  returned group has an image of that status, and its images array is exactly its images
  of that status, newest first; without a page parameter the returned groups are exactly
  the groups that have an image of that status, each once. With pagination the returned
  list is only a page of them.
\<close>

theorem status_filter_selects:
  assumes "plain_statuses cfg"
    and "distinct (map group_oid (groups_collection st))"
    and "args ''status'' = Some s"
    and "s \<in> set (VALID_STATUSES cfg)"
    and "get_groups_with_images cfg args st = (Inr (Docs ds, code), st')"
  shows "(\<forall>g\<in>set ds.
            images g = Some (Many (map One (sort_desc last_updated_at
              (filter (\<lambda>x. group_id x = group_oid g \<and> status x = s) (images_collection st)))))
            \<and> group_oid g \<in> group_oid ` set (groups_collection st)
            \<and> (\<exists>x\<in>set (images_collection st). group_id x = group_oid g \<and> status x = s))
         \<and> (args ''page'' = None \<or> args ''page'' = Some [] \<longrightarrow>
              distinct (map group_oid ds) \<and>
              group_oid ` set ds =
                {group_oid gr |gr. gr \<in> set (groups_collection st) \<and>
                   (\<exists>x\<in>set (images_collection st). group_id x = group_oid gr \<and> status x = s)})"
proof -
  have sf: "status_filter_of cfg args = Some s"
    using assms(1,3,4) by (rule status_filter_of_valid)
  have w: "wanted (Some s) x = (status x = s)" for x
    by (simp add: wanted_def)
  have each: "images g = Some (Many (map One (sort_desc last_updated_at
              (filter (\<lambda>x. group_id x = group_oid g \<and> status x = s) (images_collection st)))))
            \<and> group_oid g \<in> group_oid ` set (groups_collection st)
            \<and> (\<exists>x\<in>set (images_collection st). group_id x = group_oid g \<and> status x = s)"
    if "g \<in> set ds" for g
  proof -
    from that get_groups_Docs_subset [OF assms(5)] sf
    have g: "g \<in> set (listing (Some s) st)" by auto
    from listing_member_exact [OF assms(2) g]
    have 1: "images g = Some (Many (map One (sort_desc last_updated_at
              (filter (\<lambda>x. group_id x = group_oid g \<and> status x = s) (images_collection st)))))"
      by (simp add: w)
    from listing_member [OF g] obtain ims where "ims \<noteq> []"
      and all: "\<forall>x\<in>set ims. x \<in> set (images_collection st) \<and> group_id x = group_oid g \<and>
                 wanted (Some s) x"
      and 2: "group_oid g \<in> group_oid ` set (groups_collection st)"
      by blast
    then have "hd ims \<in> set ims" by simp
    with all have "hd ims \<in> set (images_collection st)" "group_id (hd ims) = group_oid g"
      "status (hd ims) = s"
      by (auto simp: w)
    then have "\<exists>x\<in>set (images_collection st). group_id x = group_oid g \<and> status x = s"
      by blast
    with 1 2 show ?thesis by blast
  qed
  have whole: "distinct (map group_oid ds) \<and>
              group_oid ` set ds =
                {group_oid gr |gr. gr \<in> set (groups_collection st) \<and>
                   (\<exists>x\<in>set (images_collection st). group_id x = group_oid gr \<and> status x = s)}"
    if "args ''page'' = None \<or> args ''page'' = Some []"
  proof -
    from get_groups_unpaginated [OF assms(5) that] sf
    have "ds = listing (Some s) st" by simp
    then show ?thesis
      using listing_distinct [of "Some s" st] listing_ids [of "Some s" st]
      by (simp add: w)
  qed
  from each whole show ?thesis by blast
qed

lemma example_filtered:
  "get_groups_with_images example_config [''status'' \<mapsto> ''new''] example_store =
     (Inr (Docs (listing (Some ''new'') example_store), 200),
      issue (Op_aggregate_groups (filtered_pipeline (Some ''new''))) example_store)"
  by code_simp

theorem status_filter_selects_witness:
  "plain_statuses example_config
   \<and> distinct (map group_oid (groups_collection example_store))
   \<and> [''status'' \<mapsto> ''new''] ''status'' = Some ''new''
   \<and> ''new'' \<in> set (VALID_STATUSES example_config)
   \<and> get_groups_with_images example_config [''status'' \<mapsto> ''new''] example_store =
       (Inr (Docs (listing (Some ''new'') example_store), 200),
        issue (Op_aggregate_groups (filtered_pipeline (Some ''new''))) example_store)
   \<and> map group_oid (listing (Some ''new'') example_store) = [2, 1]
   \<and> list_all
        (\<lambda>g. images g = Some (Many (map One (sort_desc last_updated_at
                 (filter (\<lambda>x. group_id x = group_oid g \<and> status x = ''new'')
                    (images_collection example_store)))))
             \<and> list_ex (\<lambda>x. group_id x = group_oid g \<and> status x = ''new'')
                 (images_collection example_store))
        (listing (Some ''new'') example_store)
   \<and> group_oid ` set (listing (Some ''new'') example_store) =
       {group_oid gr |gr. gr \<in> set (groups_collection example_store) \<and>
          list_ex (\<lambda>x. group_id x = group_oid gr \<and> status x = ''new'')
            (images_collection example_store)}"
proof -
  have 2: "distinct (map group_oid (groups_collection example_store))"
    by (simp add: example_store_def)
  have 3: "[''status'' \<mapsto> ''new''] ''status'' = Some ''new''" by simp
  have 4: "''new'' \<in> set (VALID_STATUSES example_config)"
    by (simp add: example_config_def)
  have 5: "map group_oid (listing (Some ''new'') example_store) = [2, 1]"
    by code_simp
  have 6: "[''status'' \<mapsto> ''new''] ''page'' = None" by simp
  from status_filter_selects [OF example_plain 2 3 4 example_filtered] 6
  show ?thesis
    using example_plain 2 3 4 5 example_filtered
    by (simp add: list_all_iff list_ex_iff)
qed

theorem filtered_page_misses_groups:
  "''new'' \<in> set (VALID_STATUSES example_config)
   \<and> \<lparr>group_oid = 1, name = ''Group 1''\<rparr> \<in> set (groups_collection example_store)
   \<and> example_image 10 1 ''new'' 5 5 \<in> set (images_collection example_store)
   \<and> group_id (example_image 10 1 ''new'' 5 5) = 1
   \<and> status (example_image 10 1 ''new'' 5 5) = ''new''
   \<and> fst (get_groups_with_images example_config
            [''status'' \<mapsto> ''new'', ''page'' \<mapsto> ''1''] example_store) =
       Inr (Docs [], 200)"
  by code_simp

subsection \<open>Reading integers\<close>

text \<open>
  Some values of \<open>py_int\<close>: white space and underscores, a sign, a separator character
  that is no white space for \<^verbatim>\<open>int\<close>, a vertical tab, an Arabic-Indic digit one, a
  no-break space, a doubled underscore and the empty string.
\<close>

lemma int_of_text:
  "py_int '' +1_000 '' = Inr 1000"
  "py_int ''-2'' = Inr (- 2)"
  "py_int [CHR 0x1C, CHR ''0''] = Inl (ValueError [CHR 0x1C, CHR ''0''])"
  "py_int [CHR 0x0B, CHR ''7''] = Inr 7"
  "py_int [CHR 0xD9, CHR 0xA1] = Inr 1"
  "py_int [CHR 0xC2, CHR 0xA0, CHR ''7''] = Inr 7"
  "py_int ''1__0'' = Inl (ValueError ''1__0'')"
  "py_int [] = Inl (ValueError [])"
  by code_simp+

text \<open>
  C7 (amended). For a \<^verbatim>\<open>GET /groups\<close> request that passes the status check and has a
  non-empty page value, page and then groups_per_page are parsed as integers. The first
  parse failure gives the 400 response ``Invalid values of query parameters'' whose
  description is that error, and nothing is issued to the store. When page parses to
  \<open>k \<ge> 0\<close> and groups_per_page to \<open>n \<ge> 1\<close>, skip is \<open>k * n\<close> and limit is \<open>n\<close>, and
  the response is what the store makes of that pipeline.
\<close>

theorem pagination_values_parsed:
  assumes "with_status_filter cfg args base_pipeline = Inr pl"
    and "args ''page'' = Some p"
    and "p \<noteq> []"
  shows "(\<forall>e. py_int (escape p) = Inl e \<longrightarrow>
            get_groups_with_images cfg args st =
              (Inr (Error_envelope 400 ''Invalid values of query parameters'' (Str_of e), 400),
               st))
         \<and> (\<forall>k e. py_int (escape p) = Inr k \<and>
                  int_escape (groups_per_page_arg cfg args) = Inl e \<longrightarrow>
            get_groups_with_images cfg args st =
              (Inr (Error_envelope 400 ''Invalid values of query parameters'' (Str_of e), 400),
               st))
         \<and> (\<forall>k n. py_int (escape p) = Inr k \<and>
                  int_escape (groups_per_page_arg cfg args) = Inr n \<and> 0 \<le> k \<and> 0 < n \<longrightarrow>
            with_pagination cfg args pl = Inr (pl @ [Skip (k * n), Limit n]) \<and>
            get_groups_with_images cfg args st =
              (case groups_aggregate (pl @ [Skip (k * n), Limit n]) st of
                 (Inl e, st') \<Rightarrow> (Inl e, st')
               | (Inr groups, st') \<Rightarrow> (Inr (Docs groups, 200), st')))"
  using assms
  by (simp add: get_groups_with_images_def with_pagination_def invalid_values_def)

theorem pagination_values_parsed_witness:
  "with_status_filter example_config [''page'' \<mapsto> ''x1''] base_pipeline = Inr base_pipeline
   \<and> [''page'' \<mapsto> ''x1''] ''page'' = Some ''x1''
   \<and> ''x1'' \<noteq> []
   \<and> py_int (escape ''x1'') = Inl (ValueError ''x1'')
   \<and> get_groups_with_images example_config [''page'' \<mapsto> ''x1''] example_store =
       (Inr (Error_envelope 400 ''Invalid values of query parameters''
               (Str_of (ValueError ''x1'')), 400),
        example_store)"
proof -
  have 1: "with_status_filter example_config [''page'' \<mapsto> ''x1''] base_pipeline =
             Inr base_pipeline"
    by (simp add: with_status_filter_def)
  have 2: "[''page'' \<mapsto> ''x1''] ''page'' = Some ''x1''" by simp
  have 3: "''x1'' \<noteq> []" by simp
  have 4: "py_int (escape ''x1'') = Inl (ValueError ''x1'')" by code_simp
  from pagination_values_parsed
         [of example_config "[''page'' \<mapsto> ''x1'']" base_pipeline "''x1''" example_store,
          OF 1 2 3] 4
  have "get_groups_with_images example_config [''page'' \<mapsto> ''x1''] example_store =
       (Inr (Error_envelope 400 ''Invalid values of query parameters''
               (Str_of (ValueError ''x1'')), 400),
        example_store)"
    by blast
  with 1 2 3 4 show ?thesis by blast
qed

theorem empty_page_not_parsed:
  "[''page'' \<mapsto> [], ''groups_per_page'' \<mapsto> ''abc''] ''page'' = Some []
   \<and> py_int (escape []) = Inl (ValueError [])
   \<and> int_escape (groups_per_page_arg example_config
         [''page'' \<mapsto> [], ''groups_per_page'' \<mapsto> ''abc'']) = Inl (ValueError ''abc'')
   \<and> get_groups_with_images example_config
         [''page'' \<mapsto> [], ''groups_per_page'' \<mapsto> ''abc''] example_store =
       (Inr (Docs (listing None example_store), 200),
        issue (Op_aggregate_groups base_pipeline) example_store)"
  by code_simp

subsection \<open>Pagination\<close>

lemma with_status_filter_page:
  "with_status_filter cfg (args(''page'' := v)) pl = with_status_filter cfg args pl"
  by (simp add: with_status_filter_def)

lemma with_status_filter_per_page:
  "with_status_filter cfg (args(''groups_per_page'' := v)) pl = with_status_filter cfg args pl"
  by (simp add: with_status_filter_def)

lemma filtered_pipeline_ok:
  "list_all encodable (filtered_pipeline sf)" "list_all valid_stage (filtered_pipeline sf)"
  by (cases sf; simp add: filtered_pipeline_def base_pipeline_def list_insert_def)+

text \<open>
  Pagination on values the store accepts. Let the request without its page parameter
  return the list \<open>full\<close>. With a non-empty page that parses to \<open>k \<ge> 0\<close> and a
  groups_per_page that parses to \<open>n \<ge> 1\<close>, both \<open>n\<close> and \<open>k * n\<close> fitting 64 bits, the
  response is the groups at the positions from \<open>k * n\<close> up to \<open>k * n + n\<close> of \<open>full\<close>,
  the empty list beyond its end. Without a groups_per_page value, \<open>n\<close> is the configured
  default. Without a page value the response does not depend on groups_per_page.
\<close>

theorem page_is_slice_of_listing:
  assumes "fst (get_groups_with_images cfg (args(''page'' := None)) st) = Inr (Docs full, 200)"
  shows "(\<forall>p k n. args ''page'' = Some p \<and> p \<noteq> [] \<and> py_int (escape p) = Inr k \<and>
                  int_escape (groups_per_page_arg cfg args) = Inr n \<and>
                  0 \<le> k \<and> 0 < n \<and> int64 n \<and> int64 (k * n) \<longrightarrow>
            fst (get_groups_with_images cfg args st) =
              Inr (Docs (take (nat n) (drop (nat (k * n)) full)), 200) \<and>
            (length full \<le> nat (k * n) \<longrightarrow>
               fst (get_groups_with_images cfg args st) = Inr (Docs [], 200)))
         \<and> (args ''groups_per_page'' = None \<longrightarrow>
              int_escape (groups_per_page_arg cfg args) =
                Inr (DEFAULT_PAGINATION_NUMBER_OF_GROUPS_TO_RETURN cfg))
         \<and> (args ''page'' = None \<longrightarrow>
              (\<forall>v. get_groups_with_images cfg (args(''groups_per_page'' := v)) st =
                    get_groups_with_images cfg args st))"
proof (intro conjI allI impI)
  fix p k n
  assume h: "args ''page'' = Some p \<and> p \<noteq> [] \<and> py_int (escape p) = Inr k \<and>
             int_escape (groups_per_page_arg cfg args) = Inr n \<and>
             0 \<le> k \<and> 0 < n \<and> int64 n \<and> int64 (k * n)"
  from assms obtain st' where
    u: "get_groups_with_images cfg (args(''page'' := None)) st = (Inr (Docs full, 200), st')"
    by (cases "get_groups_with_images cfg (args(''page'' := None)) st") auto
  then obtain pl pl' where
    1: "with_status_filter cfg args base_pipeline = Inr pl" and
    2: "with_pagination cfg (args(''page'' := None)) pl = Inr pl'" and
    3: "groups_aggregate pl' st = (Inr full, st')"
    by (auto simp: get_groups_with_images_def invalid_status_def invalid_values_def
        with_status_filter_page split: sum.splits prod.splits dest!: with_status_filter_Inl)
  from 2 have "pl' = pl" by (simp add: with_pagination_def)
  with 3 have 3: "groups_aggregate pl st = (Inr full, st')" by simp
  have pl: "pl = filtered_pipeline (status_filter_of cfg args)"
    using 1 by (rule with_status_filter_Inr)
  have full: "full = run_pipeline (images_collection st) pl (map group_doc (groups_collection st))"
    and nf: "next_fault st = None"
    using groups_aggregate_Inr [OF 3] by simp_all
  from h have "0 \<le> k * n" by simp
  with h nf have "groups_aggregate (pl @ [Skip (k * n), Limit n]) st =
      (Inr (take (nat n) (drop (nat (k * n)) full)),
       issue (Op_aggregate_groups (pl @ [Skip (k * n), Limit n])) st)"
    by (simp add: groups_aggregate_def pl filtered_pipeline_ok run_paginated full)
  moreover from h have "with_pagination cfg args pl = Inr (pl @ [Skip (k * n), Limit n])"
    by (simp add: with_pagination_def)
  ultimately show r: "fst (get_groups_with_images cfg args st) =
              Inr (Docs (take (nat n) (drop (nat (k * n)) full)), 200)"
    by (simp add: get_groups_with_images_def 1)
  assume "length full \<le> nat (k * n)"
  with r show "fst (get_groups_with_images cfg args st) = Inr (Docs [], 200)"
    by simp
next
  assume "args ''groups_per_page'' = None"
  then show "int_escape (groups_per_page_arg cfg args) =
                Inr (DEFAULT_PAGINATION_NUMBER_OF_GROUPS_TO_RETURN cfg)"
    by (simp add: groups_per_page_arg_def int_escape_def)
next
  fix v
  assume "args ''page'' = None"
  then have "with_pagination cfg (args(''groups_per_page'' := v)) = with_pagination cfg args"
    by (intro ext) (simp add: with_pagination_def)
  then show "get_groups_with_images cfg (args(''groups_per_page'' := v)) st =
                    get_groups_with_images cfg args st"
    by (simp add: get_groups_with_images_def with_status_filter_per_page cong: sum.case_cong)
qed

theorem page_is_slice_of_listing_witness:
  "fst (get_groups_with_images example_config
          ([''page'' \<mapsto> ''1'', ''groups_per_page'' \<mapsto> ''1''](''page'' := None)) example_store) =
     Inr (Docs (listing None example_store), 200)
   \<and> [''page'' \<mapsto> ''1'', ''groups_per_page'' \<mapsto> ''1''] ''page'' = Some ''1''
   \<and> ''1'' \<noteq> []
   \<and> py_int (escape ''1'') = Inr 1
   \<and> int_escape (groups_per_page_arg example_config
         [''page'' \<mapsto> ''1'', ''groups_per_page'' \<mapsto> ''1'']) = Inr 1
   \<and> (0::int) \<le> 1 \<and> (0::int) < 1 \<and> int64 1 \<and> int64 (1 * 1)
   \<and> fst (get_groups_with_images example_config
            [''page'' \<mapsto> ''1'', ''groups_per_page'' \<mapsto> ''1''] example_store) =
       Inr (Docs (take (nat 1) (drop (nat (1 * 1)) (listing None example_store))), 200)
   \<and> map name (listing None example_store) = [''Group 0'', ''Group 1'']
   \<and> map name (take (nat 1) (drop (nat (1 * 1)) (listing None example_store))) = [''Group 1'']"
proof -
  let ?args = "[''page'' \<mapsto> ''1'', ''groups_per_page'' \<mapsto> ''1'']"
  have 0: "fst (get_groups_with_images example_config (?args(''page'' := None)) example_store) =
     Inr (Docs (listing None example_store), 200)"
    by code_simp
  have 1: "?args ''page'' = Some ''1''" "''1'' \<noteq> []" by simp_all
  have 2: "py_int (escape ''1'') = Inr 1" by code_simp
  have 3: "int_escape (groups_per_page_arg example_config ?args) = Inr 1" by code_simp
  have 4: "(0::int) \<le> 1" "(0::int) < 1" "int64 1" "int64 (1 * 1)"
    by (simp_all add: int64_def)
  have 5: "map name (listing None example_store) = [''Group 0'', ''Group 1'']"
    "map name (take (nat 1) (drop (nat (1 * 1)) (listing None example_store))) = [''Group 1'']"
    by code_simp+
  from page_is_slice_of_listing [OF 0] 1 2 3 4
  have "fst (get_groups_with_images example_config ?args example_store) =
       Inr (Docs (take (nat 1) (drop (nat (1 * 1)) (listing None example_store))), 200)"
    by blast
  with 0 1 2 3 4 5 show ?thesis by blast
qed

text \<open>
  C6. A page and a groups_per_page that parse as integers should give the groups at the
  positions from \<open>page * groups_per_page\<close> on, an empty list when there are none, never
  an error. The handler does not do so for \<^verbatim>\<open>?page=-1\<close>: the page parses to \<open>-1\<close>,
  the pipeline gets \<^verbatim>\<open>$skip\<close> \<open>-10\<close>, the store refuses it, and the exception leaves
  the handler, although the same request without the page succeeds.
\<close>

theorem negative_page_is_error:
  "[''page'' \<mapsto> ''-1''] ''page'' = Some ''-1''
   \<and> py_int (escape ''-1'') = Inr (- 1)
   \<and> int_escape (groups_per_page_arg example_config [''page'' \<mapsto> ''-1'']) = Inr 10
   \<and> with_pagination example_config [''page'' \<mapsto> ''-1''] base_pipeline =
       Inr (base_pipeline @ [Skip (- 10), Limit 10])
   \<and> fst (get_groups_with_images example_config
            ([''page'' \<mapsto> ''-1''](''page'' := None)) example_store) =
       Inr (Docs (listing None example_store), 200)
   \<and> get_groups_with_images example_config [''page'' \<mapsto> ''-1''] example_store =
       (Inl OperationFailure,
        issue (Op_aggregate_groups (base_pipeline @ [Skip (- 10), Limit 10])) example_store)"
  by code_simp

section \<open>The claims about the status update\<close>

lemma issue_sel:
  "images_collection (issue p st) = images_collection st"
  "groups_collection (issue p st) = groups_collection st"
  "oplog (issue p st) = oplog st @ [p]"
  "faults (issue p st) = tl (faults st)"
  by (simp_all add: issue_def)

lemma set_first_absent:
  "find (\<lambda>x. image_oid x = i) xs = None \<Longrightarrow> set_first i s t xs = (xs, 0)"
  by (induction xs) (auto split: if_splits)

lemma set_first_present:
  "find (\<lambda>x. image_oid x = i) xs = Some x \<Longrightarrow> status x \<noteq> s \<Longrightarrow>
   snd (set_first i s t xs) = 1 \<and>
   find (\<lambda>x. image_oid x = i) (fst (set_first i s t xs)) =
     Some (x\<lparr>status := s, last_updated_at := t\<rparr>) \<and>
   filter (\<lambda>x. image_oid x \<noteq> i) (fst (set_first i s t xs)) = filter (\<lambda>x. image_oid x \<noteq> i) xs"
proof (induction xs)
  case Nil
  then show ?case by simp
next
  case (Cons y ys)
  show ?case
  proof (cases "image_oid y = i")
    case True
    with Cons.prems have "y = x" by simp
    moreover have "status (x\<lparr>status := s, last_updated_at := t\<rparr>) \<noteq> status x"
      using Cons.prems(2) by simp
    then have "x\<lparr>status := s, last_updated_at := t\<rparr> \<noteq> x"
      by metis
    ultimately show ?thesis using True by simp
  next
    case False
    with Cons show ?thesis by (auto split: prod.splits)
  qed
qed

text \<open>
  C2. A \<^verbatim>\<open>PUT /images/<image_id>\<close> with a well-formed identifier and a valid status
  that is the stored image's current status is answered 200 ``Requested status is the
  same as current''; the only operation issued is the read, and both collections, so
  the image's status and last_updated_at with them, are as before.
\<close>

theorem same_status_is_noop:
  assumes "ObjectId image_id = Inr i"
    and "s \<in> set (VALID_STATUSES cfg)"
    and "next_fault st = None"
    and "find (\<lambda>x. image_oid x = i) (images_collection st) = Some x"
    and "status x = s"
  shows "update_image_status cfg now image_id (Some s) st =
           (Inr (Message ''Requested status is the same as current'', 200),
            issue (Op_find_one i) st)
         \<and> images_collection (issue (Op_find_one i) st) = images_collection st
         \<and> groups_collection (issue (Op_find_one i) st) = groups_collection st
         \<and> oplog (issue (Op_find_one i) st) = oplog st @ [Op_find_one i]"
  using assms by (simp add: update_image_status_def find_one_def issue_sel)

theorem same_status_is_noop_witness:
  "ObjectId ''00000000000000000000000a'' = Inr 10
   \<and> ''new'' \<in> set (VALID_STATUSES example_config)
   \<and> next_fault example_store = None
   \<and> find (\<lambda>x. image_oid x = 10) (images_collection example_store) =
       Some (example_image 10 1 ''new'' 5 5)
   \<and> status (example_image 10 1 ''new'' 5 5) = ''new''
   \<and> update_image_status example_config 100 ''00000000000000000000000a'' (Some ''new'')
       example_store =
       (Inr (Message ''Requested status is the same as current'', 200),
        issue (Op_find_one 10) example_store)
   \<and> images_collection (issue (Op_find_one 10) example_store) =
       images_collection example_store
   \<and> oplog (issue (Op_find_one 10) example_store) = [Op_find_one 10]"
proof -
  have 1: "ObjectId ''00000000000000000000000a'' = Inr 10" by code_simp
  have 2: "''new'' \<in> set (VALID_STATUSES example_config)" by (simp add: example_config_def)
  have 3: "next_fault example_store = None" by (simp add: next_fault_def example_store_def)
  have 4: "find (\<lambda>x. image_oid x = 10) (images_collection example_store) =
       Some (example_image 10 1 ''new'' 5 5)"
    by (simp add: example_store_def example_image_def)
  have 5: "status (example_image 10 1 ''new'' 5 5) = ''new''" by (simp add: example_image_def)
  have 6: "oplog example_store = []" by (simp add: example_store_def)
  from same_status_is_noop [OF 1 2 3 4 5, of 100] 1 2 3 4 5 6
  show ?thesis by simp
qed

text \<open>
  C3. A \<^verbatim>\<open>PUT /images/<image_id>\<close> with a well-formed identifier and a valid status
  that differs from the current one (no image with that identifier counts as no current
  status) issues, after the read, one update on that identifier that sets the status to
  the requested one and last_updated_at to the clock's reading. When no document was
  modified the answer is 400 ``Image not found''; when one was, it is 200 ``Image status
  updated''. One is modified exactly when an image with that identifier is stored.
\<close>

theorem different_status_is_written:
  assumes "ObjectId image_id = Inr i"
    and "s \<in> set (VALID_STATUSES cfg)"
    and "next_fault st = None"
    and "next_fault (issue (Op_find_one i) st) = None"
    and "map_option status (find (\<lambda>x. image_oid x = i) (images_collection st)) \<noteq> Some s"
  shows "update_image_status cfg now image_id (Some s) st =
           (Inr (if snd (set_first i s now (images_collection st)) = 0
                 then (Error_envelope 400 ''Image not found''
                         (Text ''Specified ID was not found in database''), 400)
                 else (Message ''Image status updated'', 200)),
            issue (Op_update_one i s now)
              ((issue (Op_find_one i) st)
                 \<lparr>images_collection := fst (set_first i s now (images_collection st))\<rparr>))
         \<and> (find (\<lambda>x. image_oid x = i) (images_collection st) = None \<longrightarrow>
              snd (set_first i s now (images_collection st)) = 0 \<and>
              fst (set_first i s now (images_collection st)) = images_collection st)
         \<and> (\<forall>x. find (\<lambda>x. image_oid x = i) (images_collection st) = Some x \<longrightarrow>
              snd (set_first i s now (images_collection st)) = 1 \<and>
              find (\<lambda>x. image_oid x = i) (fst (set_first i s now (images_collection st))) =
                Some (x\<lparr>status := s, last_updated_at := now\<rparr>) \<and>
              filter (\<lambda>x. image_oid x \<noteq> i) (fst (set_first i s now (images_collection st))) =
                filter (\<lambda>x. image_oid x \<noteq> i) (images_collection st))"
proof (intro conjI allI impI)
  have f: "find_one i st =
      (Inr (map_option (\<lambda>x. (image_oid x, status x))
              (find (\<lambda>x. image_oid x = i) (images_collection st))),
       issue (Op_find_one i) st)"
    using assms(3) by (simp add: find_one_def)
  have c: "map_option snd (map_option (\<lambda>x. (image_oid x, status x))
              (find (\<lambda>x. image_oid x = i) (images_collection st))) =
           map_option status (find (\<lambda>x. image_oid x = i) (images_collection st))"
    by (simp add: option.map_comp comp_def)
  have u: "update_one i s now (issue (Op_find_one i) st) =
      (Inr (snd (set_first i s now (images_collection st))),
       issue (Op_update_one i s now)
         ((issue (Op_find_one i) st)
            \<lparr>images_collection := fst (set_first i s now (images_collection st))\<rparr>))"
    using assms(4) by (simp add: update_one_def issue_sel split: prod.splits)
  show "update_image_status cfg now image_id (Some s) st =
           (Inr (if snd (set_first i s now (images_collection st)) = 0
                 then (Error_envelope 400 ''Image not found''
                         (Text ''Specified ID was not found in database''), 400)
                 else (Message ''Image status updated'', 200)),
            issue (Op_update_one i s now)
              ((issue (Op_find_one i) st)
                 \<lparr>images_collection := fst (set_first i s now (images_collection st))\<rparr>))"
  proof -
    have ne: "Some s \<noteq> map_option status (find (\<lambda>x. image_oid x = i) (images_collection st))"
      using assms(5) by (rule not_sym)
    show ?thesis
      using assms(1,2) by (simp add: update_image_status_def f c u ne)
  qed
next
  assume "find (\<lambda>x. image_oid x = i) (images_collection st) = None"
  then show "snd (set_first i s now (images_collection st)) = 0"
    "fst (set_first i s now (images_collection st)) = images_collection st"
    by (simp_all add: set_first_absent)
next
  fix x
  assume x: "find (\<lambda>x. image_oid x = i) (images_collection st) = Some x"
  with assms(5) have "status x \<noteq> s" by auto
  from set_first_present [OF x this, of now]
  show "snd (set_first i s now (images_collection st)) = 1"
    "find (\<lambda>x. image_oid x = i) (fst (set_first i s now (images_collection st))) =
                Some (x\<lparr>status := s, last_updated_at := now\<rparr>)"
    "filter (\<lambda>x. image_oid x \<noteq> i) (fst (set_first i s now (images_collection st))) =
                filter (\<lambda>x. image_oid x \<noteq> i) (images_collection st)"
    by simp_all
qed

theorem different_status_is_written_witness:
  "ObjectId ''00000000000000000000000a'' = Inr 10
   \<and> ObjectId ''00000000000000000000000F'' = Inr 15
   \<and> ''review'' \<in> set (VALID_STATUSES example_config)
   \<and> next_fault example_store = None
   \<and> next_fault (issue (Op_find_one 10) example_store) = None
   \<and> next_fault (issue (Op_find_one 15) example_store) = None
   \<and> find (\<lambda>x. image_oid x = 10) (images_collection example_store) =
       Some (example_image 10 1 ''new'' 5 5)
   \<and> find (\<lambda>x. image_oid x = 15) (images_collection example_store) = None
   \<and> fst (update_image_status example_config 100 ''00000000000000000000000a'' (Some ''review'')
            example_store) = Inr (Message ''Image status updated'', 200)
   \<and> find (\<lambda>x. image_oid x = 10)
         (images_collection (snd (update_image_status example_config 100
            ''00000000000000000000000a'' (Some ''review'') example_store))) =
       Some (example_image 10 1 ''review'' 5 100)
   \<and> oplog (snd (update_image_status example_config 100 ''00000000000000000000000a''
         (Some ''review'') example_store)) = [Op_find_one 10, Op_update_one 10 ''review'' 100]
   \<and> fst (update_image_status example_config 100 ''00000000000000000000000F'' (Some ''review'')
            example_store) =
       Inr (Error_envelope 400 ''Image not found''
              (Text ''Specified ID was not found in database''), 400)
   \<and> images_collection (snd (update_image_status example_config 100
         ''00000000000000000000000F'' (Some ''review'') example_store)) =
       images_collection example_store"
proof -
  have 1: "ObjectId ''00000000000000000000000a'' = Inr 10"
    "ObjectId ''00000000000000000000000F'' = Inr 15"
    by code_simp+
  have 2: "''review'' \<in> set (VALID_STATUSES example_config)" by (simp add: example_config_def)
  have 3: "next_fault example_store = None"
    "next_fault (issue (Op_find_one 10) example_store) = None"
    "next_fault (issue (Op_find_one 15) example_store) = None"
    by (simp_all add: next_fault_def issue_def example_store_def)
  have 4: "find (\<lambda>x. image_oid x = 10) (images_collection example_store) =
       Some (example_image 10 1 ''new'' 5 5)"
    "find (\<lambda>x. image_oid x = 15) (images_collection example_store) = None"
    by (simp_all add: example_store_def example_image_def)
  have 5: "map_option status (find (\<lambda>x. image_oid x = 10) (images_collection example_store))
             \<noteq> Some ''review''"
    "map_option status (find (\<lambda>x. image_oid x = 15) (images_collection example_store))
             \<noteq> Some ''review''"
    by (simp_all add: 4 example_image_def)
  have 7: "oplog example_store = []" by (simp add: example_store_def)
  note a = different_status_is_written [OF 1(1) 2 3(1) 3(2) 5(1), of 100]
  note b = different_status_is_written [OF 1(2) 2 3(1) 3(3) 5(2), of 100]
  note a0 = a [THEN conjunct1]
  note b0 = b [THEN conjunct1]
  from a [THEN conjunct2, THEN conjunct2, rule_format, OF 4(1)]
  have a1: "snd (set_first 10 ''review'' 100 (images_collection example_store)) = 1"
    "find (\<lambda>x. image_oid x = 10)
       (fst (set_first 10 ''review'' 100 (images_collection example_store))) =
     Some (example_image 10 1 ''review'' 5 100)"
    by (simp_all add: example_image_def)
  from b [THEN conjunct2, THEN conjunct1, rule_format, OF 4(2)] have b1: "snd (set_first 15 ''review'' 100 (images_collection example_store)) = 0"
    "fst (set_first 15 ''review'' 100 (images_collection example_store)) =
       images_collection example_store"
    by simp_all
  from a0 a1 have a2:
    "fst (update_image_status example_config 100 ''00000000000000000000000a'' (Some ''review'')
            example_store) = Inr (Message ''Image status updated'', 200)"
    "find (\<lambda>x. image_oid x = 10)
         (images_collection (snd (update_image_status example_config 100
            ''00000000000000000000000a'' (Some ''review'') example_store))) =
       Some (example_image 10 1 ''review'' 5 100)"
    "oplog (snd (update_image_status example_config 100 ''00000000000000000000000a''
         (Some ''review'') example_store)) = [Op_find_one 10, Op_update_one 10 ''review'' 100]"
    by (simp_all add: issue_sel 7)
  from b0 b1 have b2:
    "fst (update_image_status example_config 100 ''00000000000000000000000F'' (Some ''review'')
            example_store) =
       Inr (Error_envelope 400 ''Image not found''
              (Text ''Specified ID was not found in database''), 400)"
    "images_collection (snd (update_image_status example_config 100
         ''00000000000000000000000F'' (Some ''review'') example_store)) =
       images_collection example_store"
    by (simp_all add: issue_sel)
  from 1 2 3 4 a2 b2 show ?thesis by blast
qed

section \<open>The claim about the statistics\<close>

lemma map_of_sum_one:
  "map_of (sum_one k kcs) k' =
     (if k' = k then Some (case map_of kcs k of None \<Rightarrow> 1 | Some c \<Rightarrow> c + 1)
      else map_of kcs k')"
  by (induction kcs) auto

lemma keys_sum_one:
  "map fst (sum_one k kcs) =
     (if k \<in> set (map fst kcs) then map fst kcs else map fst kcs @ [k])"
  by (induction kcs) force+

lemma distinct_sum_one: "distinct (map fst kcs) \<Longrightarrow> distinct (map fst (sum_one k kcs))"
  by (simp add: keys_sum_one)

lemma distinct_fold_sum_one:
  "distinct (map fst kcs) \<Longrightarrow> distinct (map fst (fold sum_one ks kcs))"
  by (induction ks arbitrary: kcs) (simp_all add: distinct_sum_one)

lemma map_of_fold_sum_one:
  "map_of (fold sum_one ks kcs) k =
     (case map_of kcs k of
        None \<Rightarrow> if filter (\<lambda>x. x = k) ks = [] then None
                else Some (int (length (filter (\<lambda>x. x = k) ks)))
      | Some c \<Rightarrow> Some (c + int (length (filter (\<lambda>x. x = k) ks))))"
  by (induction ks arbitrary: kcs) (auto simp: map_of_sum_one split: option.splits)

lemma map_of_dict_set: "map_of (dict_set k v d) = (map_of d)(k \<mapsto> v)"
  by (induction d) auto

lemma keys_dict_set:
  "map fst (dict_set k v d) =
     (if k \<in> set (map fst d) then map fst d else map fst d @ [k])"
  by (induction d) force+

lemma distinct_dict_set: "distinct (map fst d) \<Longrightarrow> distinct (map fst (dict_set k v d))"
  by (simp add: keys_dict_set)

lemma dict_of_counts:
  "\<exists>d'. dict_of_items (map (\<lambda>(k, c). Status_count k c) kcs) d = Inr d' \<and>
        (distinct (map fst d) \<longrightarrow> distinct (map fst d')) \<and>
        (distinct (map fst kcs) \<longrightarrow> map_of d' = map_of d ++ map_of kcs)"
proof (induction kcs arbitrary: d)
  case Nil
  then show ?case by simp
next
  case (Cons kc kcs)
  obtain k c where kc: "kc = (k, c)" by (cases kc)
  from Cons [of "dict_set k c d"] obtain d' where
    1: "dict_of_items (map (\<lambda>(k, c). Status_count k c) kcs) (dict_set k c d) = Inr d'" and
    2: "distinct (map fst (dict_set k c d)) \<longrightarrow> distinct (map fst d')" and
    3: "distinct (map fst kcs) \<longrightarrow> map_of d' = map_of (dict_set k c d) ++ map_of kcs"
    by blast
  have 4: "map_of d' = map_of d ++ map_of (kc # kcs)" if "distinct (map fst (kc # kcs))"
  proof -
    from that have "k \<notin> fst ` set kcs" "distinct (map fst kcs)"
      by (simp_all add: kc)
    then have "map_of kcs k = None" "map_of d' = (map_of d)(k \<mapsto> c) ++ map_of kcs"
      using 3 by (simp_all add: map_of_eq_None_iff map_of_dict_set)
    then show ?thesis
      by (auto simp: kc map_add_def fun_eq_iff split: option.splits)
  qed
  have 5: "dict_of_items (map (\<lambda>(k, c). Status_count k c) (kc # kcs)) d = Inr d'"
    using 1 by (simp add: kc)
  have 6: "distinct (map fst d')" if "distinct (map fst d)"
    using that 2 by (simp add: distinct_dict_set)
  from 4 5 6 show ?case by blast
qed

lemma count_status_keys:
  "filter (\<lambda>k. k = Some s) (map status_key (filter (created_between lo hi) (map Image_doc imgs))) =
     map (\<lambda>x. Some (status x)) (filter (\<lambda>x. status x = s \<and> lo \<le> created_at x \<and> created_at x \<le> hi) imgs)"
  by (induction imgs) (auto simp: status_key_def created_between_def)

lemma no_null_keys:
  "filter (\<lambda>k. k = None) (map status_key (filter (created_between lo hi) (map Image_doc imgs))) = []"
  by (induction imgs) (auto simp: status_key_def)

text \<open>
  C9. When the store answers, \<^verbatim>\<open>GET /statistics\<close> returns 200 with a dictionary that
  maps each status to the number of images of that status whose \<open>created_at\<close> lies in
  the window from the configured number of days before now to now, both ends
  included; a status with no such image is not a key, nor is anything else; images
  outside the window are not counted; and the request's parameters do not matter.
\<close>

theorem statistics_counts_window:
  assumes "next_fault st = None"
  shows "\<exists>d. get_statistics cfg now args st =
               (Inr (Statistics d, 200),
                issue (Op_aggregate_images
                         [Match_created_at (now - timedelta_days (STATISTIC_NUMBER_OF_DAYS cfg)) now,
                          Group_by_status]) st)
             \<and> distinct (map fst d)
             \<and> map_of d None = None
             \<and> (\<forall>s. map_of d (Some s) =
                     (if counted cfg now s (images_collection st) = [] then None
                      else Some (int (length (counted cfg now s (images_collection st))))))
             \<and> (\<forall>args'. get_statistics cfg now args' st = get_statistics cfg now args st)"
proof -
  define lo where "lo = now - timedelta_days (STATISTIC_NUMBER_OF_DAYS cfg)"
  define ks where
    "ks = map status_key (filter (created_between lo now) (map Image_doc (images_collection st)))"
  define kcs where "kcs = fold sum_one ks []"
  have agg: "images_aggregate [Match_created_at lo now, Group_by_status] st =
      (Inr (map (\<lambda>(k, c). Status_count k c) kcs),
       issue (Op_aggregate_images [Match_created_at lo now, Group_by_status]) st)"
    using assms by (simp add: images_aggregate_def kcs_def ks_def)
  have dk: "distinct (map fst kcs)"
    unfolding kcs_def by (rule distinct_fold_sum_one) simp
  from dict_of_counts [of kcs "[]"] dk obtain d where
    d: "dict_of_items (map (\<lambda>(k, c). Status_count k c) kcs) [] = Inr d"
    and dd: "distinct (map fst d)" and m: "map_of d = map_of kcs"
    by auto
  have res: "get_statistics cfg now a st =
      (Inr (Statistics d, 200),
       issue (Op_aggregate_images [Match_created_at lo now, Group_by_status]) st)" for a
    by (simp add: get_statistics_def lo_def [symmetric] agg d)
  have none: "map_of d None = None"
    by (simp add: m kcs_def map_of_fold_sum_one ks_def no_null_keys)
  have some: "map_of d (Some s) =
                     (if counted cfg now s (images_collection st) = [] then None
                      else Some (int (length (counted cfg now s (images_collection st)))))" for s
    by (simp add: m kcs_def map_of_fold_sum_one ks_def count_status_keys counted_def
        in_window_def lo_def)
  from res dd none some show ?thesis
    unfolding lo_def by auto
qed

theorem statistics_counts_window_witness:
  "next_fault example_store = None
   \<and> get_statistics example_config 2592000006 Map.empty example_store =
       (Inr (Statistics [(Some ''review'', 1), (Some ''new'', 2)], 200),
        issue (Op_aggregate_images [Match_created_at 6 2592000006, Group_by_status])
          example_store)
   \<and> map created_at (counted example_config 2592000006 ''new'' (images_collection example_store))
       = [7, 8]
   \<and> map_of [(Some ''review'', 1), (Some ''new'', 2 :: int)] (Some ''new'') = Some 2
   \<and> counted example_config 2592000006 ''accepted'' (images_collection example_store) = []
   \<and> map_of [(Some ''review'', 1), (Some ''new'', 2 :: int)] (Some ''accepted'') = None
   \<and> get_statistics example_config 2592000006 [''days'' \<mapsto> ''1''] example_store =
       get_statistics example_config 2592000006 Map.empty example_store"
proof -
  have 1: "next_fault example_store = None"
    by (simp add: next_fault_def example_store_def)
  have 2: "get_statistics example_config 2592000006 Map.empty example_store =
       (Inr (Statistics [(Some ''review'', 1), (Some ''new'', 2)], 200),
        issue (Op_aggregate_images [Match_created_at 6 2592000006, Group_by_status])
          example_store)"
    by code_simp
  have 3: "map created_at
             (counted example_config 2592000006 ''new'' (images_collection example_store))
       = [7, 8]"
    "counted example_config 2592000006 ''accepted'' (images_collection example_store) = []"
    by code_simp+
  from statistics_counts_window [OF 1, of example_config 2592000006 Map.empty]
  obtain d where d: "get_statistics example_config 2592000006 Map.empty example_store =
               (Inr (Statistics d, 200),
                issue (Op_aggregate_images
                         [Match_created_at
                            (2592000006 - timedelta_days (STATISTIC_NUMBER_OF_DAYS example_config))
                            2592000006,
                          Group_by_status]) example_store)"
    and s: "\<forall>s. map_of d (Some s) =
                     (if counted example_config 2592000006 s (images_collection example_store) = []
                      then None
                      else Some (int (length (counted example_config 2592000006 s
                                   (images_collection example_store)))))"
    and a: "\<forall>args'. get_statistics example_config 2592000006 args' example_store =
                 get_statistics example_config 2592000006 Map.empty example_store"
    by blast
  from d 2 have dv: "d = [(Some ''review'', 1), (Some ''new'', 2)]" by simp
  have l: "length (counted example_config 2592000006 ''new'' (images_collection example_store)) = 2"
    using 3(1) by (metis length_map length_Cons list.size(3) numeral_2_eq_2)
  from s [rule_format, of "''new''"] l 3(1)
  have 4: "map_of [(Some ''review'', 1), (Some ''new'', 2 :: int)] (Some ''new'') = Some 2"
    by (auto simp: dv)
  from s [rule_format, of "''accepted''"] 3(2)
  have 5: "map_of [(Some ''review'', 1), (Some ''new'', 2 :: int)] (Some ''accepted'') = None"
    by (simp add: dv)
  from 1 2 3 4 5 a [rule_format, of "[''days'' \<mapsto> ''1'']"] show ?thesis
    by blast
qed

end
